theory Spec2Isabelle
  imports Complex_Main "HOL-Library.Sublist"
begin

section \<open>MindWatch analyzer: data model\<close>

text \<open>
  The development embeds \<^verbatim>\<open>src/mindwatch_analyzer.py\<close> (class \<^verbatim>\<open>MindWatchAnalyzer\<close>).
  Python floats are modelled as exact rationals, Python ints as \<open>nat\<close> or \<open>int\<close>,
  dictionaries as association lists in insertion order, and every \<^verbatim>\<open>raise\<close> as the left
  summand of a result type.
\<close>

datatype py_error = ZeroDivisionError | ValueError

text \<open>
  One element of \<^verbatim>\<open>results['predictions']\<close>. The fields are the dictionary keys
  \<^verbatim>\<open>'class', 'confidence', 'x', 'y', 'width', 'height', 'x1', 'y1', 'x2', 'y2'\<close>,
  prefixed with \<open>d_\<close>.
\<close>

record detection =
  d_class :: string
  d_confidence :: rat
  d_x :: rat
  d_y :: rat
  d_width :: rat
  d_height :: rat
  d_x1 :: rat
  d_y1 :: rat
  d_x2 :: rat
  d_y2 :: rat

text \<open>
  The dictionary \<^verbatim>\<open>results\<close> passed between the methods: \<open>Some ds\<close> is a dictionary whose
  key \<^verbatim>\<open>'predictions'\<close> holds the list \<open>ds\<close>; \<open>None\<close> is a dictionary lacking that key
  (the empty dictionary among them). Python's \<^verbatim>\<open>None\<close> is not a value of this type:
  \<^verbatim>\<open>detect_objects\<close> never returns it.
\<close>

type_synonym results = "detection list option"

text \<open>The Python truth value of \<^verbatim>\<open>results and results.get('predictions')\<close>.\<close>

fun has_predictions :: "results \<Rightarrow> bool" where
  "has_predictions None = False"
| "has_predictions (Some ds) = (ds \<noteq> [])"

definition attentive_activities :: "string list" where
  "attentive_activities = [''listening'', ''reading'', ''writing'']"

definition distracted_activities :: "string list" where
  "distracted_activities = [''sleeping'', ''using_mobile'', ''turn'', ''turning'']"

text \<open>\<^verbatim>\<open>sum(1 for activity in activities if activity in grp)\<close>\<close>

definition count_in :: "string list \<Rightarrow> string list \<Rightarrow> nat" where
  "count_in grp activities = length (filter (\<lambda>activity. activity \<in> set grp) activities)"

text \<open>\<^verbatim>\<open>n / tot * 100 if tot > 0 else 0\<close>, with Python's true division.\<close>

definition percentage :: "nat \<Rightarrow> nat \<Rightarrow> rat" where
  "percentage n tot = (if tot > 0 then of_nat n / of_nat tot * 100 else 0)"

text \<open>\<^verbatim>\<open>collections.Counter\<close>: the keys in order of first occurrence, with their counts.\<close>

fun counter_add :: "string \<Rightarrow> (string \<times> nat) list \<Rightarrow> (string \<times> nat) list" where
  "counter_add a [] = [(a, 1)]"
| "counter_add a ((b, n) # cs) = (if b = a then (b, Suc n) # cs else (b, n) # counter_add a cs)"

definition Counter :: "string list \<Rightarrow> (string \<times> nat) list" where
  "Counter activities = foldl (\<lambda>cs a. counter_add a cs) [] activities"

section \<open>Image summary\<close>

text \<open>
  The dictionary returned by \<^verbatim>\<open>generate_image_summary\<close>; the key \<^verbatim>\<open>'timestamp'\<close>
  (the wall clock) is left out.
\<close>

record image_summary =
  total_students :: nat
  attentive_students :: nat
  distracted_students :: nat
  engagement_rate :: rat
  activity_breakdown :: "(string \<times> nat) list"

datatype image_summary_result = ImageError (message: string) | ImageSummary (the_summary: image_summary)

fun generate_image_summary :: "results \<Rightarrow> image_summary_result" where
  "generate_image_summary None = ImageError ''No detections found''"
| "generate_image_summary (Some predictions) =
     (let activities = map d_class predictions;
          total_count = length predictions;
          attentive_count = count_in attentive_activities activities;
          distracted_count = count_in distracted_activities activities
      in ImageSummary
           \<lparr>total_students = total_count,
            attentive_students = attentive_count,
            distracted_students = distracted_count,
            engagement_rate = percentage attentive_count total_count,
            activity_breakdown = Counter activities\<rparr>)"

section \<open>Analyzer state\<close>

text \<open>\<^verbatim>\<open>str(i)\<close> for a non-negative integer: its decimal digits.\<close>

definition digit_char :: "nat \<Rightarrow> char" where
  "digit_char d = ''0123456789'' ! d"

fun str_nat :: "nat \<Rightarrow> string" where
  "str_nat n = (if n < 10 then [digit_char n] else str_nat (n div 10) @ [digit_char (n mod 10)])"

declare str_nat.simps [simp del]

text \<open>\<^verbatim>\<open>f"student_{i}"\<close>, the key of a track in \<^verbatim>\<open>student_tracks\<close>.\<close>

definition student_id :: "nat \<Rightarrow> string" where
  "student_id i = ''student_'' @ str_nat i"

text \<open>The value of the key \<^verbatim>\<open>'position'\<close> of a timeline entry.\<close>

record position =
  p_x :: rat
  p_y :: rat
  p_width :: rat
  p_height :: rat

text \<open>
  A timeline entry, with the keys \<^verbatim>\<open>'frame', 'timestamp', 'activity', 'confidence',
  'position'\<close> prefixed with \<open>e_\<close>.
\<close>

record track_entry =
  e_frame :: nat
  e_timestamp :: rat
  e_activity :: string
  e_confidence :: rat
  e_position :: position

text \<open>An element of \<^verbatim>\<open>detection_results\<close>, keys \<^verbatim>\<open>'frame', 'timestamp', 'detections'\<close>.\<close>

record frame_result =
  r_frame :: nat
  r_timestamp :: rat
  r_detections :: results

datatype model_type = Yolov8 | Yolov5 | Mock

type_synonym tracks = "(string \<times> track_entry list) list"

text \<open>
  The attributes of a \<^verbatim>\<open>MindWatchAnalyzer\<close>. \<^verbatim>\<open>self.model\<close> is a loaded model exactly
  when \<open>model_type\<close> is not \<open>Mock\<close>; \<^verbatim>\<open>student_tracks\<close> is a \<^verbatim>\<open>defaultdict(list)\<close>, kept
  as its items in insertion order.
\<close>

record analyzer =
  model_type :: model_type
  class_names :: "(int \<times> string) list"
  student_tracks :: tracks
  frame_count :: nat
  fps :: rat
  detection_results :: "frame_result list"
  student_summaries :: "(string \<times> string) list"

definition default_class_names :: "(int \<times> string) list" where
  "default_class_names = [(0, ''listening''), (1, ''reading''), (2, ''sleeping''),
     (3, ''student''), (4, ''turn''), (5, ''using_mobile''), (6, ''writing'')]"

text \<open>
  \<^verbatim>\<open>__init__\<close>: which model loads, and the class names it carries, are decided by the file
  system and are parameters here.
\<close>

definition init_analyzer :: "model_type \<Rightarrow> (int \<times> string) list \<Rightarrow> analyzer" where
  "init_analyzer mt names =
     \<lparr>model_type = mt, class_names = names, student_tracks = [], frame_count = 0,
      fps = 30, detection_results = [], student_summaries = []\<rparr>"

text \<open>\<^verbatim>\<open>reset_analysis\<close>\<close>

definition reset_analysis :: "analyzer \<Rightarrow> analyzer" where
  "reset_analysis s =
     s\<lparr>student_tracks := [], frame_count := 0, detection_results := [], student_summaries := []\<rparr>"

section \<open>Tracking\<close>

text \<open>
  The timeline stored under a key, read without inserting the key: the empty list when
  the key is absent.
\<close>

definition timeline_of :: "tracks \<Rightarrow> string \<Rightarrow> track_entry list" where
  "timeline_of tr k = (case map_of tr k of None \<Rightarrow> [] | Some t \<Rightarrow> t)"

text \<open>
  \<^verbatim>\<open>self.student_tracks[student_id].append(entry)\<close>: a present key keeps its place and gets
  the entry at the end of its list; an absent key is inserted last, with the one entry.
\<close>

fun tracks_append :: "string \<Rightarrow> track_entry \<Rightarrow> tracks \<Rightarrow> tracks" where
  "tracks_append k e [] = [(k, [e])]"
| "tracks_append k e ((k', t) # tr) =
     (if k' = k then (k', t @ [e]) # tr else (k', t) # tracks_append k e tr)"

text \<open>The dictionary appended for one prediction; \<open>f\<close> is \<^verbatim>\<open>self.fps\<close>, not zero.\<close>

definition entry_of :: "rat \<Rightarrow> nat \<Rightarrow> detection \<Rightarrow> track_entry" where
  "entry_of f frame_number prediction =
     \<lparr>e_frame = frame_number,
      e_timestamp = of_nat frame_number / f,
      e_activity = d_class prediction,
      e_confidence = d_confidence prediction,
      e_position = \<lparr>p_x = d_x prediction, p_y = d_y prediction,
        p_width = d_width prediction, p_height = d_height prediction\<rparr>\<rparr>"

text \<open>
  The loop \<^verbatim>\<open>for i, prediction in enumerate(results['predictions'])\<close>, from index \<open>i\<close> on.
  \<^verbatim>\<open>frame_number / self.fps\<close> raises when the frame rate is zero.
\<close>

fun track_loop :: "rat \<Rightarrow> nat \<Rightarrow> nat \<Rightarrow> detection list \<Rightarrow> tracks \<Rightarrow> py_error + tracks" where
  "track_loop f frame_number i [] tr = Inr tr"
| "track_loop f frame_number i (prediction # rest) tr =
     (if f = 0 then Inl ZeroDivisionError
      else track_loop f frame_number (Suc i) rest
             (tracks_append (student_id i) (entry_of f frame_number prediction) tr))"

fun update_tracking :: "results \<Rightarrow> nat \<Rightarrow> analyzer \<Rightarrow> py_error + analyzer" where
  "update_tracking None frame_number s = Inr s"
| "update_tracking (Some predictions) frame_number s =
     (case track_loop (fps s) frame_number 0 predictions (student_tracks s) of
        Inl e \<Rightarrow> Inl e
      | Inr tr \<Rightarrow> Inr (s\<lparr>student_tracks := tr\<rparr>))"

text \<open>A sequence of tracking updates, each with its results and frame number.\<close>

fun run_updates :: "(results \<times> nat) list \<Rightarrow> analyzer \<Rightarrow> py_error + analyzer" where
  "run_updates [] s = Inr s"
| "run_updates ((res, frame_number) # upds) s =
     (case update_tracking res frame_number s of
        Inl e \<Rightarrow> Inl e
      | Inr s' \<Rightarrow> run_updates upds s')"

text \<open>The number of detections of a frame's results.\<close>

fun num_predictions :: "results \<Rightarrow> nat" where
  "num_predictions None = 0"
| "num_predictions (Some ds) = length ds"

text \<open>The slots that hold at least one timeline entry.\<close>

definition nonempty_slots :: "tracks \<Rightarrow> tracks" where
  "nonempty_slots tr = filter (\<lambda>(student, entries). entries \<noteq> []) tr"

section \<open>Video summary\<close>

text \<open>
  The per-student dictionary built by \<^verbatim>\<open>generate_video_summary\<close>; the keys
  \<^verbatim>\<open>'activity_breakdown'\<close> and \<^verbatim>\<open>'timeline'\<close> are prefixed with \<open>sa_\<close>.
\<close>

record slot_analysis =
  total_detections :: nat
  attentive_percentage :: rat
  distracted_percentage :: rat
  classification :: string
  sa_activity_breakdown :: "(string \<times> nat) list"
  sa_timeline :: "track_entry list"

text \<open>The body of the loop over \<^verbatim>\<open>self.student_tracks.items()\<close>, for a non-empty track.\<close>

definition analyse_slot :: "track_entry list \<Rightarrow> slot_analysis" where
  "analyse_slot entries =
     (let activities = map e_activity entries;
          n = length entries;
          attentive_detections = count_in attentive_activities activities;
          distracted_detections = count_in distracted_activities activities;
          attentive = percentage attentive_detections n;
          distracted = percentage distracted_detections n
      in \<lparr>total_detections = n,
          attentive_percentage = attentive,
          distracted_percentage = distracted,
          classification = (if attentive > distracted then ''Attentive'' else ''Distracted''),
          sa_activity_breakdown = Counter activities,
          sa_timeline = entries\<rparr>)"

text \<open>\<^verbatim>\<open>d[k] = v\<close> on a dictionary kept as its items in insertion order.\<close>

fun dict_set :: "string \<Rightarrow> 'v \<Rightarrow> (string \<times> 'v) list \<Rightarrow> (string \<times> 'v) list" where
  "dict_set k v [] = [(k, v)]"
| "dict_set k v ((k', v') # d) = (if k' = k then (k', v) # d else (k', v') # dict_set k v d)"

text \<open>The loop itself: empty tracks are skipped, the others are analysed and stored.\<close>

fun analysis_loop :: "tracks \<Rightarrow> (string \<times> slot_analysis) list \<Rightarrow> (string \<times> slot_analysis) list" where
  "analysis_loop [] acc = acc"
| "analysis_loop ((student, entries) # rest) acc =
     (if entries = [] then analysis_loop rest acc
      else analysis_loop rest (dict_set student (analyse_slot entries) acc))"

text \<open>The dictionary \<^verbatim>\<open>overall_summary\<close>, without the wall-clock \<^verbatim>\<open>'timestamp'\<close>.\<close>

record video_summary =
  video_duration :: rat
  total_frames_analyzed :: nat
  students_tracked :: nat
  student_analysis :: "(string \<times> slot_analysis) list"

datatype video_summary_result =
  VideoError (video_message: string) | VideoSummary (the_video_summary: video_summary)

definition generate_video_summary :: "analyzer \<Rightarrow> video_summary_result" where
  "generate_video_summary s =
     (if detection_results s = [] then VideoError ''No detection results available''
      else let analysis = analysis_loop (student_tracks s) [];
               total_frames = length (detection_results s);
               total_duration = (if fps s > 0 then of_nat total_frames / fps s else 0)
           in VideoSummary
                \<lparr>video_duration = total_duration,
                 total_frames_analyzed = total_frames,
                 students_tracked = length analysis,
                 student_analysis = analysis\<rparr>)"

section \<open>Detection\<close>

text \<open>
  The outcome of running the statements of a \<^verbatim>\<open>try\<close> block that call into the model
  library: an exception, or the value they produce.
\<close>

datatype 'a attempt = Raised | Returned 'a

text \<open>One row of \<^verbatim>\<open>result.boxes\<close> of YOLOv8: the corners, the confidence and the class index.\<close>

record raw_box =
  b_x1 :: rat
  b_y1 :: rat
  b_x2 :: rat
  b_y2 :: rat
  b_conf :: rat
  b_cls :: int

text \<open>\<^verbatim>\<open>str(i)\<close> for any integer.\<close>

definition str_int :: "int \<Rightarrow> string" where
  "str_int i = (if i < 0 then CHR ''-'' # str_nat (nat (- i)) else str_nat (nat i))"

text \<open>\<^verbatim>\<open>self.class_names.get(cls, f"class_{cls}")\<close>\<close>

definition class_name_of :: "(int \<times> string) list \<Rightarrow> int \<Rightarrow> string" where
  "class_name_of names cls = (case map_of names cls of Some name \<Rightarrow> name | None \<Rightarrow> ''class_'' @ str_int cls)"

text \<open>The conversion to the center format, shared by both parsers.\<close>

definition box_detection :: "string \<Rightarrow> rat \<Rightarrow> rat \<Rightarrow> rat \<Rightarrow> rat \<Rightarrow> rat \<Rightarrow> detection" where
  "box_detection name conf x1 y1 x2 y2 =
     \<lparr>d_class = name, d_confidence = conf,
      d_x = (x1 + x2) / 2, d_y = (y1 + y2) / 2,
      d_width = x2 - x1, d_height = y2 - y1,
      d_x1 = x1, d_y1 = y1, d_x2 = x2, d_y2 = y2\<rparr>"

text \<open>\<^verbatim>\<open>parse_yolov8_results\<close>; \<open>None\<close> is \<^verbatim>\<open>result.boxes is None\<close>.\<close>

fun parse_yolov8_results :: "(int \<times> string) list \<Rightarrow> raw_box list option \<Rightarrow> results" where
  "parse_yolov8_results names None = Some []"
| "parse_yolov8_results names (Some boxes) =
     Some (map (\<lambda>b. box_detection (class_name_of names (b_cls b)) (b_conf b)
                  (b_x1 b) (b_y1 b) (b_x2 b) (b_y2 b)) boxes)"

text \<open>
  One row of the YOLOv5 data frame: \<^verbatim>\<open>xmin, ymin, xmax, ymax, confidence, class\<close> and,
  when the frame has that column, \<^verbatim>\<open>name\<close>.
\<close>

record v5_row =
  v_xmin :: rat
  v_ymin :: rat
  v_xmax :: rat
  v_ymax :: rat
  v_confidence :: rat
  v_class :: int
  v_name :: "string option"

text \<open>
  The class name of a row without a \<^verbatim>\<open>name\<close> column: \<^verbatim>\<open>iterrows\<close> then delivers the class
  index as a float, which finds the same key of \<^verbatim>\<open>class_names\<close> as the integer and is
  formatted with a decimal point when the key is absent.
\<close>

definition row_class_name_of :: "(int \<times> string) list \<Rightarrow> int \<Rightarrow> string" where
  "row_class_name_of names cls =
     (case map_of names cls of Some name \<Rightarrow> name | None \<Rightarrow> ''class_'' @ str_int cls @ ''.0'')"

definition parse_yolov5_results :: "(int \<times> string) list \<Rightarrow> v5_row list \<Rightarrow> results" where
  "parse_yolov5_results names rows =
     Some (map (\<lambda>row. box_detection
                  (case v_name row of Some name \<Rightarrow> name | None \<Rightarrow> row_class_name_of names (v_class row))
                  (v_confidence row) (v_xmin row) (v_ymin row) (v_xmax row) (v_ymax row)) rows)"

text \<open>
  \<^verbatim>\<open>random.randint(a, b)\<close>: \<^verbatim>\<open>ValueError\<close> on an empty range, else the number drawn, which
  the caller of the model supplies.
\<close>

definition randint :: "int \<Rightarrow> int \<Rightarrow> int \<Rightarrow> py_error + int" where
  "randint a b drawn = (if a > b then Inl ValueError else Inr drawn)"

text \<open>The random numbers of one iteration of the loop of \<^verbatim>\<open>mock_detection\<close>.\<close>

record mock_draw =
  m_x_center :: int
  m_y_center :: int
  m_w :: int
  m_h :: int
  m_activity :: string
  m_confidence :: rat

text \<open>The draws an iteration may see for an image of the given size.\<close>

definition valid_draw :: "int \<Rightarrow> int \<Rightarrow> mock_draw \<Rightarrow> bool" where
  "valid_draw width height r =
     (100 \<le> m_x_center r \<and> m_x_center r \<le> width - 100
      \<and> 100 \<le> m_y_center r \<and> m_y_center r \<le> height - 100
      \<and> 80 \<le> m_w r \<and> m_w r \<le> 150 \<and> 120 \<le> m_h r \<and> m_h r \<le> 200
      \<and> m_activity r \<in> set [''listening'', ''reading'', ''writing'', ''sleeping'', ''using_mobile'', ''turn'']
      \<and> 6 / 10 \<le> m_confidence r \<and> m_confidence r \<le> 95 / 100)"

text \<open>The dictionary appended by one iteration, with Python's floor division \<^verbatim>\<open>//\<close>.\<close>

definition mock_box :: "int \<Rightarrow> int \<Rightarrow> int \<Rightarrow> int \<Rightarrow> string \<Rightarrow> rat \<Rightarrow> detection" where
  "mock_box x_center y_center w h activity conf =
     \<lparr>d_class = activity, d_confidence = conf,
      d_x = of_int x_center, d_y = of_int y_center,
      d_width = of_int w, d_height = of_int h,
      d_x1 = of_int (x_center - w div 2), d_y1 = of_int (y_center - h div 2),
      d_x2 = of_int (x_center + w div 2), d_y2 = of_int (y_center + h div 2)\<rparr>"

text \<open>
  The loop \<^verbatim>\<open>for i in range(num_detections)\<close>; the list holds the draws of the iterations,
  so its length is \<^verbatim>\<open>num_detections\<close>.
\<close>

fun mock_loop :: "int \<Rightarrow> int \<Rightarrow> mock_draw list \<Rightarrow> py_error + detection list" where
  "mock_loop width height [] = Inr []"
| "mock_loop width height (r # rs) =
     (case randint 100 (width - 100) (m_x_center r) of
        Inl e \<Rightarrow> Inl e
      | Inr x_center \<Rightarrow>
          (case randint 100 (height - 100) (m_y_center r) of
             Inl e \<Rightarrow> Inl e
           | Inr y_center \<Rightarrow>
               (case randint 80 150 (m_w r) of
                  Inl e \<Rightarrow> Inl e
                | Inr w \<Rightarrow>
                    (case randint 120 200 (m_h r) of
                       Inl e \<Rightarrow> Inl e
                     | Inr h \<Rightarrow>
                         (case mock_loop width height rs of
                            Inl e \<Rightarrow> Inl e
                          | Inr detections \<Rightarrow>
                              Inr (mock_box x_center y_center w h (m_activity r) (m_confidence r)
                                     # detections))))))"

text \<open>
  \<^verbatim>\<open>mock_detection\<close>: the image is given by what \<^verbatim>\<open>cv2.imread\<close> returns, \<open>None\<close> or an
  array of some \<open>(height, width)\<close>.
\<close>

fun mock_detection :: "(int \<times> int) option \<Rightarrow> mock_draw list \<Rightarrow> py_error + results" where
  "mock_detection None draws = Inr (Some [])"
| "mock_detection (Some (height, width)) draws =
     (case mock_loop width height draws of
        Inl e \<Rightarrow> Inl e
      | Inr detections \<Rightarrow> Inr (Some detections))"

text \<open>
  What the environment answers when \<^verbatim>\<open>detect_objects\<close> runs on one image: the outcome of the
  \<^verbatim>\<open>try\<close> block of each backend, the image as \<^verbatim>\<open>cv2.imread\<close> sees it, and the random draws
  of a first and of a second call of \<^verbatim>\<open>mock_detection\<close>.
\<close>

record scene =
  yolov8_boxes :: "raw_box list option attempt"
  yolov5_rows :: "v5_row list attempt"
  image_size :: "(int \<times> int) option"
  draws :: "mock_draw list"
  retry_draws :: "mock_draw list"

text \<open>
  \<^verbatim>\<open>detect_objects\<close>. In mock mode the call of \<^verbatim>\<open>mock_detection\<close> stands inside the
  \<^verbatim>\<open>try\<close> block, so an exception of it leads to the second call in the handler.
\<close>

definition detect_objects :: "analyzer \<Rightarrow> scene \<Rightarrow> py_error + results" where
  "detect_objects s sc =
     (case model_type s of
        Yolov8 \<Rightarrow>
          (case yolov8_boxes sc of
             Returned boxes \<Rightarrow> Inr (parse_yolov8_results (class_names s) boxes)
           | Raised \<Rightarrow> mock_detection (image_size sc) (draws sc))
      | Yolov5 \<Rightarrow>
          (case yolov5_rows sc of
             Returned rows \<Rightarrow> Inr (parse_yolov5_results (class_names s) rows)
           | Raised \<Rightarrow> mock_detection (image_size sc) (draws sc))
      | Mock \<Rightarrow>
          (case mock_detection (image_size sc) (draws sc) of
             Inr res \<Rightarrow> Inr res
           | Inl e \<Rightarrow> mock_detection (image_size sc) (retry_draws sc)))"

section \<open>Processing an image and a video\<close>

text \<open>
  \<^verbatim>\<open>process_single_image\<close>: the returned triple \<^verbatim>\<open>(output_path, results, summary)\<close>, with
  \<open>None\<close> for Python's \<^verbatim>\<open>None\<close>. Drawing and writing the annotated image are left out.
\<close>

definition process_single_image ::
  "analyzer \<Rightarrow> scene \<Rightarrow> string option
     \<Rightarrow> py_error + (string option \<times> results option \<times> image_summary_result option)" where
  "process_single_image s sc output_path =
     (case detect_objects s sc of
        Inl e \<Rightarrow> Inl e
      | Inr res \<Rightarrow>
          if \<not> has_predictions res then Inr (None, None, None)
          else if image_size sc = None then Inr (None, None, None)
          else Inr (output_path, Some res, Some (generate_image_summary res)))"

text \<open>
  A video as \<^verbatim>\<open>cv2.VideoCapture\<close> presents it: whether it opened, the properties
  \<^verbatim>\<open>CAP_PROP_FPS\<close> and \<^verbatim>\<open>CAP_PROP_FRAME_COUNT\<close>, and the frames that \<^verbatim>\<open>cap.read()\<close>
  delivers before it fails, each as the scene that detection will see.
\<close>

record video =
  cap_opened :: bool
  cap_fps :: rat
  cap_frame_count :: int
  cap_frames :: "scene list"

text \<open>
  The variables of the loop of \<^verbatim>\<open>process_video\<close>: the analyzer and \<^verbatim>\<open>processed_frames\<close>,
  and two logs of its calls: the frame numbers handed to \<^verbatim>\<open>detect_objects\<close> and the
  percentages handed to \<^verbatim>\<open>progress_callback\<close>.
\<close>

record loop_state =
  l_analyzer :: analyzer
  processed_frames :: nat
  detect_calls :: "nat list"
  progress_calls :: "rat list"

text \<open>
  The branch taken when the results hold at least one prediction: the tracks are updated and
  the frame's results are appended to \<^verbatim>\<open>detection_results\<close>.
\<close>

definition store_results :: "results \<Rightarrow> nat \<Rightarrow> analyzer \<Rightarrow> py_error + analyzer" where
  "store_results res frame_number s =
     (case update_tracking res frame_number s of
        Inl e \<Rightarrow> Inl e
      | Inr s1 \<Rightarrow>
          if fps s1 = 0 then Inl ZeroDivisionError
          else Inr (s1\<lparr>detection_results := detection_results s1 @
                 [\<lparr>r_frame = frame_number,
                   r_timestamp = of_nat frame_number / fps s1,
                   r_detections = res\<rparr>]\<rparr>))"

text \<open>
  The \<^verbatim>\<open>while True\<close> loop, from frame \<open>frame_number\<close> on, over the frames still to be read.
  \<^verbatim>\<open>frame_number % sample_rate\<close> raises for a zero rate, and
  \<^verbatim>\<open>frame_number / total_frames\<close> raises when a progress report is due and the video
  reports zero frames.
\<close>

fun video_loop ::
  "int \<Rightarrow> bool \<Rightarrow> int \<Rightarrow> nat \<Rightarrow> scene list \<Rightarrow> loop_state \<Rightarrow> py_error + loop_state" where
  "video_loop sample_rate callback total_frames frame_number [] st = Inr st"
| "video_loop sample_rate callback total_frames frame_number (frame # rest) st =
     (if sample_rate = 0 then Inl ZeroDivisionError
      else if int frame_number mod sample_rate = 0 then
        (case detect_objects (l_analyzer st) frame of
           Inl e \<Rightarrow> Inl e
         | Inr res \<Rightarrow>
             (case (if has_predictions res then store_results res frame_number (l_analyzer st)
                    else Inr (l_analyzer st)) of
                Inl e \<Rightarrow> Inl e
              | Inr s' \<Rightarrow>
                  (let done = Suc (processed_frames st);
                       report = (callback \<and> done mod 10 = 0)
                   in if report \<and> total_frames = 0 then Inl ZeroDivisionError
                      else video_loop sample_rate callback total_frames (Suc frame_number) rest
                             \<lparr>l_analyzer = s',
                              processed_frames = done,
                              detect_calls = detect_calls st @ [frame_number],
                              progress_calls =
                                (if report
                                 then progress_calls st @
                                   [of_nat frame_number / of_int total_frames * 100]
                                 else progress_calls st)\<rparr>)))
      else video_loop sample_rate callback total_frames (Suc frame_number) rest st)"

text \<open>
  \<^verbatim>\<open>process_video\<close>. \<open>out\<close> says whether an output path was given, \<open>callback\<close> whether a
  progress callback was. The result is \<open>None\<close> for the return \<^verbatim>\<open>(None, None)\<close> of a video
  that did not open, else the final loop variables and the summary. Printing the duration
  divides by the frame rate, and setting up the writer divides by the sample rate.
\<close>

definition process_video ::
  "analyzer \<Rightarrow> video \<Rightarrow> bool \<Rightarrow> int \<Rightarrow> bool
     \<Rightarrow> py_error + (loop_state \<times> video_summary_result) option" where
  "process_video s v out sample_rate callback =
     (if \<not> cap_opened v then Inr None
      else if cap_fps v = 0 then Inl ZeroDivisionError
      else if out \<and> sample_rate = 0 then Inl ZeroDivisionError
      else
        (case video_loop sample_rate callback (cap_frame_count v) 0 (cap_frames v)
                \<lparr>l_analyzer = s\<lparr>fps := cap_fps v\<rparr>, processed_frames = 0,
                 detect_calls = [], progress_calls = []\<rparr> of
           Inl e \<Rightarrow> Inl e
         | Inr st \<Rightarrow> Inr (Some (st, generate_video_summary (l_analyzer st)))))"

section \<open>Auxiliary notions for the statements\<close>

text \<open>
  A number as it reads with one decimal, the way the claims and the report write a rate:
  rounded to the nearest tenth.
\<close>

definition one_decimal :: "rat \<Rightarrow> rat" where
  "one_decimal q = of_int \<lfloor>q * 10 + 1 / 2\<rfloor> / 10"

text \<open>Whether detection on a scene returns at least one prediction.\<close>

definition yields_detections :: "analyzer \<Rightarrow> scene \<Rightarrow> bool" where
  "yields_detections s sc = (case detect_objects s sc of Inl e \<Rightarrow> False | Inr res \<Rightarrow> has_predictions res)"

text \<open>\<^verbatim>\<open>enumerate(xs, n)\<close>: the elements with their indices, counted from \<open>n\<close>.\<close>

definition enumerate_from :: "nat \<Rightarrow> 'a list \<Rightarrow> (nat \<times> 'a) list" where
  "enumerate_from n xs = zip [n..<n + length xs] xs"

text \<open>
  The frames of a video on which the loop runs detection, with their frame numbers, when the
  first of the frames has number \<open>n\<close>.
\<close>

definition sampled_from :: "int \<Rightarrow> nat \<Rightarrow> scene list \<Rightarrow> (nat \<times> scene) list" where
  "sampled_from sample_rate n frames =
     filter (\<lambda>(m, sc). int m mod sample_rate = 0) (enumerate_from n frames)"

text \<open>The loop variables after a sampled frame, when the analyzer has become \<open>s'\<close>.\<close>

definition next_state :: "bool \<Rightarrow> int \<Rightarrow> nat \<Rightarrow> analyzer \<Rightarrow> loop_state \<Rightarrow> loop_state" where
  "next_state cb tf n s' st =
     \<lparr>l_analyzer = s',
      processed_frames = Suc (processed_frames st),
      detect_calls = detect_calls st @ [n],
      progress_calls =
        (if cb \<and> Suc (processed_frames st) mod 10 = 0
         then progress_calls st @ [of_nat n / of_int tf * 100]
         else progress_calls st)\<rparr>"

text \<open>Reading a decimal numeral back, the inverse of \<open>str_nat\<close>.\<close>

definition nat_of_str :: "string \<Rightarrow> nat" where
  "nat_of_str cs = foldl (\<lambda>a c. a * 10 + (of_char c - 48)) 0 cs"

text \<open>The largest number of detections in one frame of a sequence of updates.\<close>

fun max_predictions :: "(results \<times> nat) list \<Rightarrow> nat" where
  "max_predictions [] = 0"
| "max_predictions ((res, n) # fs) = max (num_predictions res) (max_predictions fs)"

text \<open>A detection with a given label; the geometry does not enter any summary.\<close>

definition labelled :: "string \<Rightarrow> detection" where
  "labelled l = \<lparr>d_class = l, d_confidence = 9 / 10, d_x = 200, d_y = 200,
     d_width = 100, d_height = 150, d_x1 = 150, d_y1 = 125, d_x2 = 250, d_y2 = 275\<rparr>"

text \<open>The consistency of the two forms of a bounding box, in exact arithmetic.\<close>

definition consistent :: "detection \<Rightarrow> bool" where
  "consistent d =
     (d_x d = (d_x1 d + d_x2 d) / 2 \<and> d_y d = (d_y1 d + d_y2 d) / 2
      \<and> d_width d = d_x2 d - d_x1 d \<and> d_height d = d_y2 d - d_y1 d)"

text \<open>
  The number of sampled frames of a video on which detection returns at least one
  prediction.
\<close>

definition frames_with_detections :: "analyzer \<Rightarrow> int \<Rightarrow> scene list \<Rightarrow> nat" where
  "frames_with_detections s sample_rate frames =
     length (filter (\<lambda>(m, sc). yields_detections s sc) (sampled_from sample_rate 0 frames))"

text \<open>Whether \<^verbatim>\<open>detect_objects\<close> returns on a scene, rather than raising.\<close>

definition detection_returns :: "analyzer \<Rightarrow> scene \<Rightarrow> bool" where
  "detection_returns s sc = (case detect_objects s sc of Inl e \<Rightarrow> False | Inr res \<Rightarrow> True)"

section \<open>Example inputs\<close>

text \<open>
  A 640 by 480 frame on which a loaded YOLOv8 model reports one box for each of the listed
  class indices.
\<close>

definition box_scene :: "int list \<Rightarrow> scene" where
  "box_scene classes =
     \<lparr>yolov8_boxes = Returned (Some (map (\<lambda>c. \<lparr>b_x1 = 150, b_y1 = 125, b_x2 = 250, b_y2 = 275,
                                               b_conf = 9 / 10, b_cls = c\<rparr>) classes)),
      yolov5_rows = Raised, image_size = Some (480, 640), draws = [], retry_draws = []\<rparr>"

text \<open>A video that opens, with the given frame rate and frames.\<close>

definition clip :: "rat \<Rightarrow> scene list \<Rightarrow> video" where
  "clip rate frames = \<lparr>cap_opened = True, cap_fps = rate, cap_frame_count = int (length frames),
     cap_frames = frames\<rparr>"

text \<open>A fresh analyzer whose YOLOv8 model loaded, with the default class names.\<close>

definition demo_analyzer :: analyzer where
  "demo_analyzer = init_analyzer Yolov8 default_class_names"

text \<open>
  The analyzer after a video of two frames, the first with one listening detection and the
  second with one using\_mobile detection.
\<close>

definition tie_state :: analyzer where
  "tie_state = demo_analyzer
     \<lparr>student_tracks := [(''student_0'',
        [entry_of 30 0 (labelled ''listening''), entry_of 30 1 (labelled ''using_mobile'')])],
      detection_results :=
        [\<lparr>r_frame = 0, r_timestamp = 0, r_detections = Some [labelled ''listening'']\<rparr>,
         \<lparr>r_frame = 1, r_timestamp = 1 / 30, r_detections = Some [labelled ''using_mobile'']\<rparr>]\<rparr>"

text \<open>A readable 176 by 144 frame on which no backend answers.\<close>

definition small_scene :: scene where
  "small_scene =
     \<lparr>yolov8_boxes = Raised, yolov5_rows = Raised, image_size = Some (144, 176),
      draws = [\<lparr>m_x_center = 100, m_y_center = 100, m_w = 80, m_h = 120,
                 m_activity = ''reading'', m_confidence = 7 / 10\<rparr>,
               \<lparr>m_x_center = 100, m_y_center = 100, m_w = 90, m_h = 130,
                 m_activity = ''turn'', m_confidence = 8 / 10\<rparr>],
      retry_draws = [\<lparr>m_x_center = 100, m_y_center = 100, m_w = 100, m_h = 140,
                 m_activity = ''writing'', m_confidence = 7 / 10\<rparr>,
               \<lparr>m_x_center = 100, m_y_center = 100, m_w = 110, m_h = 150,
                 m_activity = ''sleeping'', m_confidence = 8 / 10\<rparr>]\<rparr>"

text \<open>Two draws of \<^verbatim>\<open>mock_detection\<close> for a 640 by 480 image.\<close>

definition odd_draw :: mock_draw where
  "odd_draw = \<lparr>m_x_center = 200, m_y_center = 200, m_w = 81, m_h = 121,
     m_activity = ''reading'', m_confidence = 7 / 10\<rparr>"

definition even_draw :: mock_draw where
  "even_draw = \<lparr>m_x_center = 400, m_y_center = 300, m_w = 100, m_h = 150,
     m_activity = ''turn'', m_confidence = 8 / 10\<rparr>"

section \<open>Properties of the image summary\<close>

lemma count_in_attentive:
  "count_in attentive_activities (map d_class ds) =
     length (filter (\<lambda>d. d_class d \<in> {''listening'', ''reading'', ''writing''}) ds)"
  by (simp add: count_in_def attentive_activities_def filter_map o_def)

lemma count_in_distracted:
  "count_in distracted_activities (map d_class ds) =
     length (filter (\<lambda>d. d_class d \<in> {''sleeping'', ''using_mobile'', ''turn'', ''turning''}) ds)"
  by (simp add: count_in_def distracted_activities_def filter_map o_def)

lemma scenario_image_summary:
  "generate_image_summary
     (Some [labelled ''reading'', labelled ''reading'', labelled ''sleeping'']) =
   ImageSummary \<lparr>total_students = 3, attentive_students = 2, distracted_students = 1,
     engagement_rate = 200 / 3, activity_breakdown = [(''reading'', 2), (''sleeping'', 1)]\<rparr>"
  by (simp add: Let_def count_in_def percentage_def attentive_activities_def
      distracted_activities_def labelled_def Counter_def)

text \<open>
  C2: for every non-empty detection list the image summary has \<open>total_students\<close> equal to
  the number of detections, \<open>attentive_students\<close> the number of detections labelled
  listening, reading or writing, \<open>distracted_students\<close> the number labelled sleeping,
  using\_mobile, turn or turning, and \<open>engagement_rate = attentive / total * 100\<close>; for the
  labels reading, reading, sleeping this is 3, 2, 1 and the rate \<open>2 / 3 * 100\<close>, which reads
  \<open>66.7\<close> with one decimal and differs from it by less than \<open>0.05\<close>.
\<close>

theorem C2_image_summary:
  assumes "ds \<noteq> []"
  shows "\<exists>s. generate_image_summary (Some ds) = ImageSummary s
     \<and> total_students s = length ds
     \<and> attentive_students s =
         length (filter (\<lambda>d. d_class d \<in> {''listening'', ''reading'', ''writing''}) ds)
     \<and> distracted_students s =
         length (filter (\<lambda>d. d_class d \<in> {''sleeping'', ''using_mobile'', ''turn'', ''turning''}) ds)
     \<and> engagement_rate s = of_nat (attentive_students s) / of_nat (total_students s) * 100
     \<and> (map d_class ds = [''reading'', ''reading'', ''sleeping''] \<longrightarrow>
          total_students s = 3 \<and> attentive_students s = 2 \<and> distracted_students s = 1
          \<and> engagement_rate s = 2 / 3 * 100
          \<and> one_decimal (engagement_rate s) = 667 / 10
          \<and> \<bar>engagement_rate s - 667 / 10\<bar> < 1 / 20)"
proof -
  let ?s = "the_summary (generate_image_summary (Some ds))"
  have res: "generate_image_summary (Some ds) = ImageSummary ?s"
    by (simp add: Let_def)
  have tot: "total_students ?s = length ds"
    by (simp add: Let_def)
  have att: "attentive_students ?s =
      length (filter (\<lambda>d. d_class d \<in> {''listening'', ''reading'', ''writing''}) ds)"
    by (simp add: Let_def count_in_attentive)
  have dis: "distracted_students ?s =
      length (filter (\<lambda>d. d_class d \<in> {''sleeping'', ''using_mobile'', ''turn'', ''turning''}) ds)"
    by (simp add: Let_def count_in_distracted)
  have rate: "engagement_rate ?s = of_nat (attentive_students ?s) / of_nat (total_students ?s) * 100"
    using assms by (simp add: Let_def percentage_def)
  have ex: "total_students ?s = 3 \<and> attentive_students ?s = 2 \<and> distracted_students ?s = 1
      \<and> engagement_rate ?s = 2 / 3 * 100
      \<and> one_decimal (engagement_rate ?s) = 667 / 10
      \<and> \<bar>engagement_rate ?s - 667 / 10\<bar> < 1 / 20"
    if "map d_class ds = [''reading'', ''reading'', ''sleeping'']"
  proof -
    have len: "length ds = 3"
      using that by (metis length_map length_Cons list.size(3) numeral_3_eq_3)
    have a: "attentive_students ?s = 2"
      using that by (simp add: Let_def count_in_def attentive_activities_def)
    have d: "distracted_students ?s = 1"
      using that by (simp add: Let_def count_in_def distracted_activities_def)
    have r: "engagement_rate ?s = 200 / 3"
      using rate a tot len by simp
    have "\<lfloor>(200 / 3 :: rat) * 10 + 1 / 2\<rfloor> = 667"
      by (rule floor_unique) simp_all
    then have o: "one_decimal (engagement_rate ?s) = 667 / 10"
      unfolding r one_decimal_def by simp
    show ?thesis using tot len a d r o by simp
  qed
  show ?thesis
    using res tot att dis rate ex by blast
qed

theorem C2_image_summary_witness:
  "[labelled ''reading'', labelled ''reading'', labelled ''sleeping''] \<noteq> []
   \<and> (\<exists>s. generate_image_summary
           (Some [labelled ''reading'', labelled ''reading'', labelled ''sleeping'']) = ImageSummary s
        \<and> total_students s = 3 \<and> attentive_students s = 2 \<and> distracted_students s = 1
        \<and> one_decimal (engagement_rate s) = 667 / 10
        \<and> \<bar>engagement_rate s - 667 / 10\<bar> < 1 / 20)"
proof -
  let ?ds = "[labelled ''reading'', labelled ''reading'', labelled ''sleeping'']"
  have h: "?ds \<noteq> []" by simp
  have l: "map d_class ?ds = [''reading'', ''reading'', ''sleeping'']"
    by (simp add: labelled_def)
  from C2_image_summary [OF h] l obtain s where
    "generate_image_summary (Some ?ds) = ImageSummary s"
    "total_students s = 3" "attentive_students s = 2" "distracted_students s = 1"
    "one_decimal (engagement_rate s) = 667 / 10" "\<bar>engagement_rate s - 667 / 10\<bar> < 1 / 20"
    by blast
  with h show ?thesis by blast
qed

section \<open>Slot keys\<close>


lemma digit_value: "d < 10 \<Longrightarrow> of_char (digit_char d) - 48 = (d::nat)"
proof -
  assume "d < 10"
  then have "d \<in> {0, 1, 2, 3, 4, 5, 6, 7, 8, 9}" by auto
  then show ?thesis by (auto simp: digit_char_def)
qed

lemma nat_of_str_nat: "nat_of_str (str_nat n) = n"
proof (induction n rule: str_nat.induct)
  case (1 n)
  show ?case
  proof (cases "n < 10")
    case True
    then show ?thesis
      by (subst str_nat.simps) (simp add: nat_of_str_def digit_value)
  next
    case False
    then have "nat_of_str (str_nat (n div 10)) = n div 10"
      using 1 by simp
    moreover have "of_char (digit_char (n mod 10)) - 48 = n mod 10"
      by (rule digit_value) simp
    ultimately show ?thesis
      using False by (subst str_nat.simps) (simp add: nat_of_str_def)
  qed
qed

lemma str_nat_inj: "str_nat a = str_nat b \<Longrightarrow> a = b"
  by (metis nat_of_str_nat)

lemma student_id_inj [simp]: "student_id a = student_id b \<longleftrightarrow> a = b"
  by (auto simp: student_id_def dest: str_nat_inj)


lemma timeline_of_append:
  "timeline_of (tracks_append k e tr) k' = (if k' = k then timeline_of tr k @ [e] else timeline_of tr k')"
  by (induction tr) (auto simp: timeline_of_def)

lemma keys_append: "fst ` set (tracks_append k e tr) = insert k (fst ` set tr)"
  by (induction tr) force+

lemma distinct_append:
  "distinct (map fst tr) \<Longrightarrow> distinct (map fst (tracks_append k e tr))"
  by (induction tr) (auto simp: keys_append)

lemma nonempty_append:
  "\<forall>(k, t) \<in> set tr. t \<noteq> [] \<Longrightarrow> \<forall>(k, t) \<in> set (tracks_append k e tr). t \<noteq> []"
  by (induction tr) (auto split: if_splits)

lemma track_loop_total:
  "f \<noteq> 0 \<Longrightarrow> \<exists>tr'. track_loop f n i ps tr = Inr tr'"
  by (induction ps arbitrary: i tr) auto

lemma track_loop_timeline:
  assumes "track_loop f n i ps tr = Inr tr'"
  shows "timeline_of tr' (student_id m) =
     timeline_of tr (student_id m) @
       (if i \<le> m \<and> m < i + length ps then [entry_of f n (ps ! (m - i))] else [])"
  using assms
proof (induction ps arbitrary: i tr)
  case Nil
  then show ?case by simp
next
  case (Cons p ps)
  from Cons.prems have f: "f \<noteq> 0"
    and rest: "track_loop f n (Suc i) ps (tracks_append (student_id i) (entry_of f n p) tr) = Inr tr'"
    by (auto split: if_splits)
  show ?case
    unfolding Cons.IH [OF rest]
    by (auto simp: timeline_of_append nth_Cons' Suc_diff_le)
qed

lemma track_loop_other:
  assumes "track_loop f n i ps tr = Inr tr'" and "k \<notin> student_id ` {i..<i + length ps}"
  shows "timeline_of tr' k = timeline_of tr k"
  using assms
proof (induction ps arbitrary: i tr)
  case Nil
  then show ?case by simp
next
  case (Cons p ps)
  from Cons.prems have f: "f \<noteq> 0"
    and rest: "track_loop f n (Suc i) ps (tracks_append (student_id i) (entry_of f n p) tr) = Inr tr'"
    by (auto split: if_splits)
  from Cons.prems(2) have k: "k \<noteq> student_id i" and k': "k \<notin> student_id ` {Suc i..<Suc i + length ps}"
    by auto
  show ?case
    using Cons.IH [OF rest k'] k by (simp add: timeline_of_append)
qed

lemma track_loop_distinct:
  "track_loop f n i ps tr = Inr tr' \<Longrightarrow> distinct (map fst tr) \<Longrightarrow> distinct (map fst tr')"
  by (induction ps arbitrary: i tr) (auto split: if_splits intro: distinct_append)

section \<open>Properties of tracking\<close>

lemma keys_tracks_append:
  "map fst (tracks_append k e tr) = (if k \<in> fst ` set tr then map fst tr else map fst tr @ [k])"
  by (induction tr) force+

lemma track_loop_slots:
  assumes "track_loop f n i ps tr = Inr tr'"
    and "map fst tr = map student_id [0..<m]" and "i \<le> m"
  shows "map fst tr' = map student_id [0..<max m (i + length ps)]"
  using assms
proof (induction ps arbitrary: i tr m)
  case Nil
  then show ?case by (simp add: max_def)
next
  case (Cons p ps)
  let ?tr = "tracks_append (student_id i) (entry_of f n p) tr"
  from Cons.prems(1) have rest: "track_loop f n (Suc i) ps ?tr = Inr tr'"
    by (auto split: if_splits)
  have keys: "fst ` set tr = student_id ` {0..<m}"
    using Cons.prems(2) by (metis atLeastLessThan_upt image_set)
  show ?case
  proof (cases "i < m")
    case True
    then have "map fst ?tr = map student_id [0..<m]"
      using keys Cons.prems(2) by (simp add: keys_tracks_append)
    from Cons.IH [OF rest this] True show ?thesis
      by (simp add: max_def)
  next
    case False
    then have im: "i = m" using Cons.prems(3) by simp
    have "student_id m \<notin> fst ` set tr"
      using keys by auto
    then have "map fst ?tr = map student_id [0..<Suc m]"
      using Cons.prems(2) im by (simp add: keys_tracks_append)
    from Cons.IH [OF rest this] im show ?thesis
      by (simp add: max_def)
  qed
qed

lemma track_loop_nonempty:
  "track_loop f n i ps tr = Inr tr' \<Longrightarrow> \<forall>(k, t) \<in> set tr. t \<noteq> [] \<Longrightarrow>
     \<forall>(k, t) \<in> set tr'. t \<noteq> []"
proof (induction ps arbitrary: i tr)
  case Nil
  then show ?case by simp
next
  case (Cons p ps)
  from Cons.prems(1) have
    rest: "track_loop f n (Suc i) ps (tracks_append (student_id i) (entry_of f n p) tr) = Inr tr'"
    by (auto split: if_splits)
  show ?case
    by (rule Cons.IH [OF rest]) (rule nonempty_append [OF Cons.prems(2)])
qed

lemma nonempty_slots_all:
  "\<forall>(k, t) \<in> set tr. t \<noteq> [] \<Longrightarrow> nonempty_slots tr = tr"
  by (auto simp: nonempty_slots_def filter_id_conv)

lemma update_tracking_fps:
  "update_tracking res n s = Inr s' \<Longrightarrow> fps s' = fps s"
  by (cases res) (auto split: sum.splits)

lemma update_tracking_total:
  "fps s \<noteq> 0 \<Longrightarrow> \<exists>s'. update_tracking res n s = Inr s'"
proof (cases res)
  case None
  then show ?thesis by simp
next
  case (Some ps)
  assume "fps s \<noteq> 0"
  from track_loop_total [OF this] obtain tr' where
    "track_loop (fps s) n 0 ps (student_tracks s) = Inr tr'" by blast
  with Some show ?thesis by simp
qed

lemma update_tracking_timeline:
  assumes "update_tracking res n s = Inr s'"
  shows "timeline_of (student_tracks s') (student_id i) =
     timeline_of (student_tracks s) (student_id i) @
       (case res of None \<Rightarrow> [] | Some ps \<Rightarrow> if i < length ps then [entry_of (fps s) n (ps ! i)] else [])"
proof (cases res)
  case None
  with assms show ?thesis by simp
next
  case (Some ps)
  with assms obtain tr' where
    tl: "track_loop (fps s) n 0 ps (student_tracks s) = Inr tr'" and s': "s' = s\<lparr>student_tracks := tr'\<rparr>"
    by (auto split: sum.splits)
  show ?thesis
    using track_loop_timeline [OF tl, of i] Some s' by simp
qed

lemma update_tracking_slots:
  assumes "update_tracking res n s = Inr s'"
    and "map fst (student_tracks s) = map student_id [0..<m]"
  shows "map fst (student_tracks s') = map student_id [0..<max m (num_predictions res)]"
proof (cases res)
  case None
  with assms show ?thesis by (auto simp: max_def)
next
  case (Some ps)
  with assms obtain tr' where
    tl: "track_loop (fps s) n 0 ps (student_tracks s) = Inr tr'" and s': "s' = s\<lparr>student_tracks := tr'\<rparr>"
    by (auto split: sum.splits)
  show ?thesis
    using track_loop_slots [OF tl assms(2)] Some s' by simp
qed

lemma update_tracking_nonempty:
  assumes "update_tracking res n s = Inr s'"
    and "\<forall>(k, t) \<in> set (student_tracks s). t \<noteq> []"
  shows "\<forall>(k, t) \<in> set (student_tracks s'). t \<noteq> []"
proof (cases res)
  case None
  with assms show ?thesis by auto
next
  case (Some ps)
  with assms obtain tr' where
    tl: "track_loop (fps s) n 0 ps (student_tracks s) = Inr tr'" and s': "s' = s\<lparr>student_tracks := tr'\<rparr>"
    by (auto split: sum.splits)
  show ?thesis
    using track_loop_nonempty [OF tl assms(2)] s' by simp
qed

lemma max_predictions_Max:
  "max_predictions fs = Max (insert 0 (set (map (num_predictions \<circ> fst) fs)))"
proof (induction fs)
  case Nil
  then show ?case by simp
next
  case (Cons a fs)
  obtain res n where a: "a = (res, n)" by (cases a)
  have "Max (insert 0 (insert (num_predictions res) (set (map (num_predictions \<circ> fst) fs)))) =
      max (num_predictions res) (Max (insert 0 (set (map (num_predictions \<circ> fst) fs))))"
    by (subst insert_commute) (rule Max_insert, auto)
  with Cons a show ?case by simp
qed

lemma run_updates_invariant:
  assumes "fps s0 \<noteq> 0"
    and "map fst (student_tracks s0) = map student_id [0..<m]"
    and "\<forall>(k, t) \<in> set (student_tracks s0). t \<noteq> []"
  shows "\<exists>s. run_updates fs s0 = Inr s
     \<and> map fst (student_tracks s) = map student_id [0..<max m (max_predictions fs)]
     \<and> (\<forall>(k, t) \<in> set (student_tracks s). t \<noteq> [])
     \<and> (\<forall>i. length (timeline_of (student_tracks s) (student_id i)) =
            length (timeline_of (student_tracks s0) (student_id i)) +
            length (filter (\<lambda>(res, n). i < num_predictions res) fs))"
  using assms
proof (induction fs arbitrary: s0 m)
  case Nil
  then show ?case by simp
next
  case (Cons a fs)
  obtain res n where a: "a = (res, n)" by (cases a)
  from update_tracking_total [OF Cons.prems(1)] obtain s1 where
    s1: "update_tracking res n s0 = Inr s1" by blast
  have f1: "fps s1 \<noteq> 0"
    using update_tracking_fps [OF s1] Cons.prems(1) by simp
  note k1 = update_tracking_slots [OF s1 Cons.prems(2)]
  note n1 = update_tracking_nonempty [OF s1 Cons.prems(3)]
  from Cons.IH [OF f1 k1 n1] obtain s where
    run: "run_updates fs s1 = Inr s"
    and keys: "map fst (student_tracks s) =
       map student_id [0..<max (max m (num_predictions res)) (max_predictions fs)]"
    and ne: "\<forall>(k, t) \<in> set (student_tracks s). t \<noteq> []"
    and len: "\<forall>i. length (timeline_of (student_tracks s) (student_id i)) =
            length (timeline_of (student_tracks s1) (student_id i)) +
            length (filter (\<lambda>(res, n). i < num_predictions res) fs)"
    by blast
  have "run_updates (a # fs) s0 = Inr s"
    using a s1 run by simp
  moreover have "map fst (student_tracks s) = map student_id [0..<max m (max_predictions (a # fs))]"
    using keys a by (simp add: max.assoc)
  moreover have "length (timeline_of (student_tracks s) (student_id i)) =
            length (timeline_of (student_tracks s0) (student_id i)) +
            length (filter (\<lambda>(res, n). i < num_predictions res) (a # fs))" for i
    using len update_tracking_timeline [OF s1, of i] a
    by (cases res) auto
  ultimately show ?case
    using ne by blast
qed

lemma length_filter_mono:
  "(\<And>x. P x \<Longrightarrow> Q x) \<Longrightarrow> length (filter P xs) \<le> length (filter Q xs)"
  by (induction xs) auto

lemma track_loop_prefix:
  "track_loop f n i ps tr = Inr tr' \<Longrightarrow> prefix (timeline_of tr k) (timeline_of tr' k)"
proof (induction ps arbitrary: i tr)
  case Nil
  then show ?case by simp
next
  case (Cons p ps)
  let ?tr = "tracks_append (student_id i) (entry_of f n p) tr"
  from Cons.prems have rest: "track_loop f n (Suc i) ps ?tr = Inr tr'"
    by (auto split: if_splits)
  have "prefix (timeline_of tr k) (timeline_of ?tr k)"
    by (simp add: timeline_of_append)
  with Cons.IH [OF rest] show ?case
    by (rule prefix_order.trans [rotated])
qed

lemma update_tracking_prefix:
  assumes "update_tracking res n s = Inr s'"
  shows "prefix (timeline_of (student_tracks s) k) (timeline_of (student_tracks s') k)"
proof (cases res)
  case None
  with assms show ?thesis by simp
next
  case (Some ps)
  with assms obtain tr' where
    tl: "track_loop (fps s) n 0 ps (student_tracks s) = Inr tr'" and s': "s' = s\<lparr>student_tracks := tr'\<rparr>"
    by (auto split: sum.splits)
  show ?thesis
    using track_loop_prefix [OF tl, of k] s' by simp
qed

lemma run_updates_prefix:
  "run_updates fs s = Inr s' \<Longrightarrow>
     prefix (timeline_of (student_tracks s) k) (timeline_of (student_tracks s') k)"
proof (induction fs arbitrary: s)
  case Nil
  then show ?case by simp
next
  case (Cons a fs)
  obtain res n where a: "a = (res, n)" by (cases a)
  from Cons.prems a obtain s1 where
    s1: "update_tracking res n s = Inr s1" and run: "run_updates fs s1 = Inr s'"
    by (auto split: sum.splits)
  from update_tracking_prefix [OF s1, of k] Cons.IH [OF run] show ?case
    by (rule prefix_order.trans)
qed

lemma timeline_of_empty [simp]: "timeline_of [] k = []"
  by (simp add: timeline_of_def)

lemma student_id_0: "student_id 0 = ''student_0''"
  by (simp add: student_id_def str_nat.simps digit_char_def)

text \<open>
  C9, as stated, fails in the naming of the slots: after one update of a fresh analyzer with a
  single detection, the key \<open>slot_0\<close> holds no entry; the detection is under \<open>student_0\<close>.
\<close>

theorem C9_slot_0_stays_empty:
  "update_tracking (Some [labelled ''reading'']) 0 (init_analyzer Mock default_class_names) =
     Inr ((init_analyzer Mock default_class_names)
            \<lparr>student_tracks := [(''student_0'', [entry_of 30 0 (labelled ''reading'')])]\<rparr>)
   \<and> timeline_of [(''student_0'', [entry_of 30 0 (labelled ''reading'')])] ''slot_0'' = []
   \<and> timeline_of [(''student_0'', [entry_of 30 0 (labelled ''reading'')])] ''student_0'' =
       [entry_of 30 0 (labelled ''reading'')]"
  by (simp add: init_analyzer_def student_id_0 timeline_of_def)

text \<open>
  C9, amended: when the frame rate is not zero, the tracking update returns normally and
  appends the entry of the detection at position \<open>i\<close> of the frame's detection list to the
  timeline stored under the key \<open>student_i\<close> (\<open>student_0\<close>, \<open>student_1\<close>, ...); the timelines
  under all other keys are unchanged, and every timeline before the update is a prefix of the
  timeline after it and after any further updates, so timelines only grow.
\<close>

theorem C9_update_tracking:
  assumes "fps s \<noteq> 0"
  shows "\<exists>s'. update_tracking (Some predictions) frame_number s = Inr s'
     \<and> (\<forall>i < length predictions.
           timeline_of (student_tracks s') (student_id i) =
           timeline_of (student_tracks s) (student_id i) @ [entry_of (fps s) frame_number (predictions ! i)])
     \<and> (\<forall>k. k \<notin> student_id ` {..<length predictions} \<longrightarrow>
           timeline_of (student_tracks s') k = timeline_of (student_tracks s) k)
     \<and> (\<forall>k. prefix (timeline_of (student_tracks s) k) (timeline_of (student_tracks s') k))
     \<and> (\<forall>upds s''. run_updates upds s' = Inr s'' \<longrightarrow>
           (\<forall>k. prefix (timeline_of (student_tracks s) k) (timeline_of (student_tracks s'') k)))"
proof -
  from track_loop_total [OF assms] obtain tr' where
    tl: "track_loop (fps s) frame_number 0 predictions (student_tracks s) = Inr tr'" by blast
  let ?s' = "s\<lparr>student_tracks := tr'\<rparr>"
  have run: "update_tracking (Some predictions) frame_number s = Inr ?s'"
    using tl by simp
  have at: "timeline_of (student_tracks ?s') (student_id i) =
      timeline_of (student_tracks s) (student_id i) @ [entry_of (fps s) frame_number (predictions ! i)]"
    if "i < length predictions" for i
    using track_loop_timeline [OF tl, of i] that by simp
  have other: "timeline_of (student_tracks ?s') k = timeline_of (student_tracks s) k"
    if "k \<notin> student_id ` {..<length predictions}" for k
    using track_loop_other [OF tl, of k] that by (simp add: lessThan_atLeast0)
  have pre: "prefix (timeline_of (student_tracks s) k) (timeline_of (student_tracks ?s') k)" for k
    using track_loop_prefix [OF tl, of k] by simp
  have later: "prefix (timeline_of (student_tracks s) k) (timeline_of (student_tracks s'') k)"
    if "run_updates upds ?s' = Inr s''" for upds s'' k
    using pre [of k] run_updates_prefix [OF that, of k] by (rule prefix_order.trans)
  show ?thesis
    using run at other pre later by blast
qed

theorem C9_update_tracking_witness:
  "fps (init_analyzer Mock default_class_names) \<noteq> 0
   \<and> (\<exists>s'. update_tracking (Some [labelled ''reading'', labelled ''sleeping'']) 5
              (init_analyzer Mock default_class_names) = Inr s'
         \<and> timeline_of (student_tracks s') (student_id 0) = [entry_of 30 5 (labelled ''reading'')]
         \<and> timeline_of (student_tracks s') (student_id 1) = [entry_of 30 5 (labelled ''sleeping'')]
         \<and> timeline_of (student_tracks s') ''teacher'' = [])"
proof -
  let ?s = "init_analyzer Mock default_class_names"
  let ?ps = "[labelled ''reading'', labelled ''sleeping'']"
  have f: "fps ?s \<noteq> 0" by (simp add: init_analyzer_def)
  from C9_update_tracking [OF f, of ?ps 5] obtain s' where
    run: "update_tracking (Some ?ps) 5 ?s = Inr s'"
    and at: "\<forall>i < length ?ps. timeline_of (student_tracks s') (student_id i) =
           timeline_of (student_tracks ?s) (student_id i) @ [entry_of (fps ?s) 5 (?ps ! i)]"
    and other: "\<forall>k. k \<notin> student_id ` {..<length ?ps} \<longrightarrow>
           timeline_of (student_tracks s') k = timeline_of (student_tracks ?s) k"
    by blast
  have t0: "timeline_of (student_tracks s') (student_id 0) = [entry_of 30 5 (labelled ''reading'')]"
    using at [rule_format, of 0] by (simp add: init_analyzer_def)
  have t1: "timeline_of (student_tracks s') (student_id 1) = [entry_of 30 5 (labelled ''sleeping'')]"
    using at [rule_format, of 1] by (simp add: init_analyzer_def)
  have "''teacher'' \<notin> student_id ` {..<length ?ps}"
    by (auto simp: student_id_def)
  then have t2: "timeline_of (student_tracks s') ''teacher'' = []"
    using other by (simp add: init_analyzer_def)
  show ?thesis using f run t0 t1 t2 by blast
qed

text \<open>
  C10: after any sequence of tracking updates of an analyzer with empty tracks and a non-zero
  frame rate, the timeline of slot \<open>i\<close> has as many entries as there were frames with more
  than \<open>i\<close> detections; hence the timeline of slot \<open>i + 1\<close> is never longer than that of slot
  \<open>i\<close>, slot \<open>i\<close> is non-empty exactly when some frame had more than \<open>i\<close> detections, and the
  non-empty slots are \<open>student_0\<close>, ..., one for each index below the largest detection count
  of a frame.
\<close>

theorem C10_slot_lengths:
  assumes "fps s0 \<noteq> 0" and "student_tracks s0 = []"
  shows "\<exists>s. run_updates fs s0 = Inr s
     \<and> (\<forall>i. length (timeline_of (student_tracks s) (student_id i)) =
            length (filter (\<lambda>(res, n). i < num_predictions res) fs))
     \<and> (\<forall>i. length (timeline_of (student_tracks s) (student_id (Suc i))) \<le>
            length (timeline_of (student_tracks s) (student_id i)))
     \<and> (\<forall>i. timeline_of (student_tracks s) (student_id i) \<noteq> [] \<longleftrightarrow>
            (\<exists>(res, n) \<in> set fs. i < num_predictions res))
     \<and> map fst (nonempty_slots (student_tracks s)) =
           map student_id [0..<Max (insert 0 (set (map (num_predictions \<circ> fst) fs)))]
     \<and> length (nonempty_slots (student_tracks s)) =
           Max (insert 0 (set (map (num_predictions \<circ> fst) fs)))"
proof -
  have k0: "map fst (student_tracks s0) = map student_id [0..<0]"
    and n0: "\<forall>(k, t) \<in> set (student_tracks s0). t \<noteq> []"
    using assms(2) by simp_all
  from run_updates_invariant [OF assms(1) k0 n0, of fs] obtain s where
    run: "run_updates fs s0 = Inr s"
    and keys: "map fst (student_tracks s) = map student_id [0..<max_predictions fs]"
    and ne: "\<forall>(k, t) \<in> set (student_tracks s). t \<noteq> []"
    and len: "\<And>i. length (timeline_of (student_tracks s) (student_id i)) =
            length (filter (\<lambda>(res, n). i < num_predictions res) fs)"
    using assms(2) by auto
  have mono: "length (timeline_of (student_tracks s) (student_id (Suc i))) \<le>
            length (timeline_of (student_tracks s) (student_id i))" for i
    unfolding len by (rule length_filter_mono) auto
  have occ: "timeline_of (student_tracks s) (student_id i) \<noteq> [] \<longleftrightarrow>
            (\<exists>(res, n) \<in> set fs. i < num_predictions res)" for i
  proof -
    have "timeline_of (student_tracks s) (student_id i) \<noteq> [] \<longleftrightarrow>
        filter (\<lambda>(res, n). i < num_predictions res) fs \<noteq> []"
      using len [of i] by (metis length_0_conv)
    then show ?thesis
      by (auto simp: filter_empty_conv)
  qed
  have slots: "map fst (nonempty_slots (student_tracks s)) =
      map student_id [0..<Max (insert 0 (set (map (num_predictions \<circ> fst) fs)))]"
    using keys nonempty_slots_all [OF ne] by (simp only: max_predictions_Max)
  have "length (map fst (nonempty_slots (student_tracks s))) =
      Max (insert 0 (set (map (num_predictions \<circ> fst) fs)))"
    unfolding slots by simp
  then have count: "length (nonempty_slots (student_tracks s)) =
      Max (insert 0 (set (map (num_predictions \<circ> fst) fs)))"
    by simp
  show ?thesis
    using run len mono occ slots count by blast
qed

theorem C10_slot_lengths_witness:
  "fps (init_analyzer Mock default_class_names) \<noteq> 0
   \<and> student_tracks (init_analyzer Mock default_class_names) = []
   \<and> (\<exists>s. run_updates [(Some [labelled ''reading'', labelled ''sleeping''], 0),
                         (Some [labelled ''listening''], 5), (Some [], 10)]
              (init_analyzer Mock default_class_names) = Inr s
         \<and> length (timeline_of (student_tracks s) (student_id 0)) = 2
         \<and> length (timeline_of (student_tracks s) (student_id 1)) = 1
         \<and> timeline_of (student_tracks s) (student_id 2) = []
         \<and> length (nonempty_slots (student_tracks s)) = 2)"
proof -
  let ?s = "init_analyzer Mock default_class_names"
  let ?fs = "[(Some [labelled ''reading'', labelled ''sleeping''], 0),
              (Some [labelled ''listening''], 5), (Some [], 10::nat)]"
  have f: "fps ?s \<noteq> 0" and e: "student_tracks ?s = []"
    by (simp_all add: init_analyzer_def)
  from C10_slot_lengths [OF f e, of ?fs] obtain s where
    run: "run_updates ?fs ?s = Inr s"
    and len: "\<forall>i. length (timeline_of (student_tracks s) (student_id i)) =
            length (filter (\<lambda>(res, n). i < num_predictions res) ?fs)"
    and cnt: "length (nonempty_slots (student_tracks s)) =
           Max (insert 0 (set (map (num_predictions \<circ> fst) ?fs)))"
    by blast
  have l0: "length (timeline_of (student_tracks s) (student_id 0)) = 2"
    using len [rule_format, of 0] by simp
  have l1: "length (timeline_of (student_tracks s) (student_id 1)) = 1"
    using len [rule_format, of 1] by simp
  have l2: "timeline_of (student_tracks s) (student_id 2) = []"
    using len [rule_format, of 2] by simp
  have c: "length (nonempty_slots (student_tracks s)) = 2"
    using cnt by simp
  show ?thesis using f e run l0 l1 l2 c by blast
qed

section \<open>Properties of the video summary\<close>

lemma dict_set_absent: "k \<notin> fst ` set d \<Longrightarrow> dict_set k v d = d @ [(k, v)]"
  by (induction d) auto

lemma analysis_loop_distinct:
  assumes "distinct (map fst tr)" and "fst ` set acc \<inter> fst ` set tr = {}"
  shows "analysis_loop tr acc =
     acc @ map (\<lambda>(student, entries). (student, analyse_slot entries)) (nonempty_slots tr)"
  using assms
proof (induction tr arbitrary: acc)
  case Nil
  then show ?case by (simp add: nonempty_slots_def)
next
  case (Cons a tr)
  obtain k entries where a: "a = (k, entries)" by (cases a)
  from Cons.prems a have d: "distinct (map fst tr)" and k: "k \<notin> fst ` set tr"
    and ka: "k \<notin> fst ` set acc" and disj: "fst ` set acc \<inter> fst ` set tr = {}"
    by auto
  show ?case
  proof (cases "entries = []")
    case True
    then show ?thesis
      using Cons.IH [OF d disj] a by (simp add: nonempty_slots_def)
  next
    case False
    have "fst ` set (acc @ [(k, analyse_slot entries)]) \<inter> fst ` set tr = {}"
      using disj k by auto
    from Cons.IH [OF d this] show ?thesis
      using a False ka by (simp add: nonempty_slots_def dict_set_absent)
  qed
qed

lemma analysis_of_tracks:
  "distinct (map fst tr) \<Longrightarrow>
     analysis_loop tr [] = map (\<lambda>(student, entries). (student, analyse_slot entries)) (nonempty_slots tr)"
  using analysis_loop_distinct [of tr "[]"] by simp

lemma generate_video_summary_Summary:
  assumes "detection_results s \<noteq> []"
  shows "generate_video_summary s = VideoSummary
     \<lparr>video_duration = (if fps s > 0 then of_nat (length (detection_results s)) / fps s else 0),
      total_frames_analyzed = length (detection_results s),
      students_tracked = length (analysis_loop (student_tracks s) []),
      student_analysis = analysis_loop (student_tracks s) []\<rparr>"
  using assms by (simp add: generate_video_summary_def Let_def)

lemma classification_analyse_slot:
  "classification (analyse_slot entries) =
     (if attentive_percentage (analyse_slot entries) > distracted_percentage (analyse_slot entries)
      then ''Attentive'' else ''Distracted'')"
  by (simp add: analyse_slot_def Let_def)

lemma count_in_attentive_entries:
  "count_in attentive_activities (map e_activity es) =
     length (filter (\<lambda>e. e_activity e \<in> {''listening'', ''reading'', ''writing''}) es)"
  by (simp add: count_in_def attentive_activities_def filter_map o_def)

lemma count_in_distracted_entries:
  "count_in distracted_activities (map e_activity es) =
     length (filter (\<lambda>e. e_activity e \<in> {''sleeping'', ''using_mobile'', ''turn'', ''turning''}) es)"
  by (simp add: count_in_def distracted_activities_def filter_map o_def)

lemma percentages_analyse_slot:
  assumes "entries \<noteq> []"
  shows "attentive_percentage (analyse_slot entries) =
       of_nat (length (filter (\<lambda>e. e_activity e \<in> {''listening'', ''reading'', ''writing''}) entries))
         / of_nat (length entries) * 100"
    and "distracted_percentage (analyse_slot entries) =
       of_nat (length (filter (\<lambda>e. e_activity e \<in> {''sleeping'', ''using_mobile'', ''turn'', ''turning''}) entries))
         / of_nat (length entries) * 100"
  using assms
  by (simp_all add: analyse_slot_def Let_def percentage_def
      count_in_attentive_entries count_in_distracted_entries)

text \<open>
  C1: whenever the video summary is produced (some frame result is stored), every track slot
  with at least one timeline entry appears in it with its attentive percentage (the share of
  entries whose activity is listening, reading or writing, times 100) and its distracted
  percentage (the share of sleeping, using\_mobile, turn, turning), and is classified
  \<open>Attentive\<close> exactly when the attentive percentage is strictly greater, else \<open>Distracted\<close>;
  equal percentages give \<open>Distracted\<close>. The keys of \<open>student_tracks\<close> are those of a
  dictionary, hence distinct.
\<close>

theorem C1_classification:
  assumes "distinct (map fst (student_tracks s))" and "detection_results s \<noteq> []"
    and "(student, entries) \<in> set (student_tracks s)" and "entries \<noteq> []"
  shows "\<exists>v a. generate_video_summary s = VideoSummary v
     \<and> map_of (student_analysis v) student = Some a
     \<and> attentive_percentage a =
         of_nat (length (filter (\<lambda>e. e_activity e \<in> {''listening'', ''reading'', ''writing''}) entries))
           / of_nat (length entries) * 100
     \<and> distracted_percentage a =
         of_nat (length (filter (\<lambda>e. e_activity e \<in> {''sleeping'', ''using_mobile'', ''turn'', ''turning''}) entries))
           / of_nat (length entries) * 100
     \<and> (classification a = ''Attentive'' \<longleftrightarrow> attentive_percentage a > distracted_percentage a)
     \<and> (classification a = ''Distracted'' \<longleftrightarrow> \<not> attentive_percentage a > distracted_percentage a)
     \<and> (attentive_percentage a = distracted_percentage a \<longrightarrow> classification a = ''Distracted'')"
proof -
  let ?an = "map (\<lambda>(student, entries). (student, analyse_slot entries)) (nonempty_slots (student_tracks s))"
  let ?v = "\<lparr>video_duration = (if fps s > 0 then of_nat (length (detection_results s)) / fps s else 0),
      total_frames_analyzed = length (detection_results s),
      students_tracked = length ?an, student_analysis = ?an\<rparr>"
  let ?a = "analyse_slot entries"
  have sum: "generate_video_summary s = VideoSummary ?v"
    using generate_video_summary_Summary [OF assms(2)] analysis_of_tracks [OF assms(1)] by simp
  have mem: "(student, entries) \<in> set (nonempty_slots (student_tracks s))"
    using assms(3,4) by (simp add: nonempty_slots_def)
  have keys: "map fst ?an = map fst (nonempty_slots (student_tracks s))"
    by (simp add: o_def split_def)
  have "distinct (map fst (nonempty_slots (student_tracks s)))"
    unfolding nonempty_slots_def using assms(1) by (rule distinct_map_filter)
  then have dist: "distinct (map fst ?an)"
    by (simp only: keys)
  have "(student, ?a) \<in> set ?an"
    using mem by force
  with dist have look: "map_of (student_analysis ?v) student = Some ?a"
    by simp
  have cls: "classification ?a =
      (if attentive_percentage ?a > distracted_percentage ?a then ''Attentive'' else ''Distracted'')"
    by (rule classification_analyse_slot)
  have c1: "classification ?a = ''Attentive'' \<longleftrightarrow> attentive_percentage ?a > distracted_percentage ?a"
    and c2: "classification ?a = ''Distracted'' \<longleftrightarrow> \<not> attentive_percentage ?a > distracted_percentage ?a"
    and c3: "attentive_percentage ?a = distracted_percentage ?a \<longrightarrow> classification ?a = ''Distracted''"
    unfolding cls by simp_all
  show ?thesis
    using sum look percentages_analyse_slot [OF assms(4)] c1 c2 c3 by blast
qed

theorem C1_classification_witness:
  "distinct (map fst (student_tracks tie_state)) \<and> detection_results tie_state \<noteq> []
   \<and> (''student_0'', [entry_of 30 0 (labelled ''listening''), entry_of 30 1 (labelled ''using_mobile'')])
        \<in> set (student_tracks tie_state)
   \<and> (\<exists>v a. generate_video_summary tie_state = VideoSummary v
        \<and> map_of (student_analysis v) ''student_0'' = Some a
        \<and> attentive_percentage a = 50 \<and> distracted_percentage a = 50
        \<and> classification a = ''Distracted'')"
proof -
  let ?es = "[entry_of 30 0 (labelled ''listening''), entry_of 30 1 (labelled ''using_mobile'')]"
  have h1: "distinct (map fst (student_tracks tie_state))"
    and h2: "detection_results tie_state \<noteq> []"
    and h3: "(''student_0'', ?es) \<in> set (student_tracks tie_state)"
    and h4: "?es \<noteq> []"
    by (simp_all add: tie_state_def demo_analyzer_def init_analyzer_def)
  from C1_classification [OF h1 h2 h3 h4] obtain v a where
    s: "generate_video_summary tie_state = VideoSummary v"
    and l: "map_of (student_analysis v) ''student_0'' = Some a"
    and ap: "attentive_percentage a =
         of_nat (length (filter (\<lambda>e. e_activity e \<in> {''listening'', ''reading'', ''writing''}) ?es))
           / of_nat (length ?es) * 100"
    and dp: "distracted_percentage a =
         of_nat (length (filter (\<lambda>e. e_activity e \<in> {''sleeping'', ''using_mobile'', ''turn'', ''turning''}) ?es))
           / of_nat (length ?es) * 100"
    and tie: "attentive_percentage a = distracted_percentage a \<longrightarrow> classification a = ''Distracted''"
    by blast
  have a50: "attentive_percentage a = 50"
    unfolding ap by (simp add: entry_of_def labelled_def)
  have d50: "distracted_percentage a = 50"
    unfolding dp by (simp add: entry_of_def labelled_def)
  have "classification a = ''Distracted''"
    using tie a50 d50 by simp
  with h1 h2 h3 s l a50 d50 show ?thesis by blast
qed

text \<open>The state of that example is the one a video run reaches.\<close>

lemma tie_state_reached:
  "process_video demo_analyzer (clip 30 [box_scene [0], box_scene [5]]) False 1 False =
     Inr (Some (\<lparr>l_analyzer = tie_state, processed_frames = 2, detect_calls = [0, 1],
                 progress_calls = []\<rparr>, generate_video_summary tie_state))"
  by code_simp

section \<open>Properties of the video loop\<close>

lemma enumerate_from_Cons: "enumerate_from n (x # xs) = (n, x) # enumerate_from (Suc n) xs"
proof -
  have "n < n + length (x # xs)" by simp
  from upt_conv_Cons [OF this]
  have "[n..<n + length (x # xs)] = n # [Suc n..<Suc n + length xs]"
    by (simp del: upt_Suc)
  then show ?thesis
    by (simp add: enumerate_from_def)
qed

lemma enumerate_from_Nil [simp]: "enumerate_from n [] = []"
  by (simp add: enumerate_from_def)

lemma sampled_from_Nil [simp]: "sampled_from k n [] = []"
  by (simp add: sampled_from_def)

lemma sampled_from_Cons:
  "sampled_from k n (x # xs) =
     (if int n mod k = 0 then (n, x) # sampled_from k (Suc n) xs else sampled_from k (Suc n) xs)"
  by (simp add: sampled_from_def enumerate_from_Cons)

lemma detect_objects_cong:
  "model_type s = model_type s' \<Longrightarrow> class_names s = class_names s' \<Longrightarrow>
     detect_objects s sc = detect_objects s' sc"
  by (simp add: detect_objects_def split: model_type.splits attempt.splits)

lemma yields_detections_cong:
  "model_type s = model_type s' \<Longrightarrow> class_names s = class_names s' \<Longrightarrow>
     yields_detections s sc = yields_detections s' sc"
  using detect_objects_cong [of s s' sc] by (simp add: yields_detections_def)

lemma update_tracking_frame:
  assumes "update_tracking res n s = Inr s'"
  shows "model_type s' = model_type s" and "class_names s' = class_names s"
    and "fps s' = fps s" and "detection_results s' = detection_results s"
    and "frame_count s' = frame_count s" and "student_summaries s' = student_summaries s"
proof -
  have "model_type s' = model_type s \<and> class_names s' = class_names s
      \<and> fps s' = fps s \<and> detection_results s' = detection_results s
      \<and> frame_count s' = frame_count s \<and> student_summaries s' = student_summaries s"
  proof (cases res)
    case None
    with assms show ?thesis by simp
  next
    case (Some ps)
    with assms obtain tr' where "s' = s\<lparr>student_tracks := tr'\<rparr>"
      by (auto split: sum.splits)
    then show ?thesis by simp
  qed
  then show "model_type s' = model_type s" and "class_names s' = class_names s"
    and "fps s' = fps s" and "detection_results s' = detection_results s"
    and "frame_count s' = frame_count s" and "student_summaries s' = student_summaries s"
    by simp_all
qed

lemma update_tracking_distinct:
  assumes "update_tracking res n s = Inr s'" and "distinct (map fst (student_tracks s))"
  shows "distinct (map fst (student_tracks s'))"
proof (cases res)
  case None
  with assms show ?thesis by simp
next
  case (Some ps)
  with assms(1) obtain tr' where
    tl: "track_loop (fps s) n 0 ps (student_tracks s) = Inr tr'" and s': "s' = s\<lparr>student_tracks := tr'\<rparr>"
    by (auto split: sum.splits)
  show ?thesis
    using track_loop_distinct [OF tl assms(2)] s' by simp
qed

lemma store_results_frame:
  assumes "store_results res n s = Inr s'"
  shows "model_type s' = model_type s" and "class_names s' = class_names s"
    and "fps s' = fps s"
    and "detection_results s' = detection_results s @
       [\<lparr>r_frame = n, r_timestamp = of_nat n / fps s, r_detections = res\<rparr>]"
proof -
  from assms obtain s1 where u: "update_tracking res n s = Inr s1"
    and s': "s' = s1\<lparr>detection_results := detection_results s1 @
                 [\<lparr>r_frame = n, r_timestamp = of_nat n / fps s1, r_detections = res\<rparr>]\<rparr>"
    by (auto simp: store_results_def split: sum.splits if_splits)
  note f = update_tracking_frame [OF u]
  show "model_type s' = model_type s" "class_names s' = class_names s" "fps s' = fps s"
    "detection_results s' = detection_results s @
       [\<lparr>r_frame = n, r_timestamp = of_nat n / fps s, r_detections = res\<rparr>]"
    using s' f by simp_all
qed

lemma store_results_distinct:
  assumes "store_results res n s = Inr s'" and "distinct (map fst (student_tracks s))"
  shows "distinct (map fst (student_tracks s'))"
proof -
  from assms obtain s1 where u: "update_tracking res n s = Inr s1"
    and s': "student_tracks s' = student_tracks s1"
    by (auto simp: store_results_def split: sum.splits if_splits)
  show ?thesis
    using update_tracking_distinct [OF u assms(2)] s' by simp
qed

lemma store_results_total:
  assumes "fps s \<noteq> 0"
  shows "\<exists>s'. store_results res n s = Inr s'"
proof -
  from update_tracking_total [OF assms] obtain s1 where u: "update_tracking res n s = Inr s1"
    by blast
  with update_tracking_fps [OF u] assms show ?thesis
    by (simp add: store_results_def)
qed

lemma video_loop_skip:
  "k \<noteq> 0 \<Longrightarrow> int n mod k \<noteq> 0 \<Longrightarrow>
     video_loop k cb tf n (frame # rest) st = video_loop k cb tf (Suc n) rest st"
  by simp

lemma video_loop_sample:
  assumes "k \<noteq> 0" and "int n mod k = 0"
    and "detect_objects (l_analyzer st) frame = Inr res"
    and "(if has_predictions res then store_results res n (l_analyzer st) else Inr (l_analyzer st)) = Inr s'"
    and "\<not> (cb \<and> Suc (processed_frames st) mod 10 = 0 \<and> tf = 0)"
  shows "video_loop k cb tf n (frame # rest) st =
     video_loop k cb tf (Suc n) rest (next_state cb tf n s' st)"
proof (cases "cb \<and> Suc (processed_frames st) mod 10 = 0")
  case True
  with assms(5) have "tf \<noteq> 0" by blast
  with True assms(1-4) show ?thesis
    by (simp add: Let_def next_state_def)
next
  case False
  with assms(1-4) show ?thesis
    by (auto simp: Let_def next_state_def)
qed

lemma video_loop_Cons_Inr:
  assumes "video_loop k cb tf n (frame # rest) st = Inr st'"
  shows "k \<noteq> 0"
    and "int n mod k = 0 \<Longrightarrow> \<exists>res s'. detect_objects (l_analyzer st) frame = Inr res
        \<and> (if has_predictions res then store_results res n (l_analyzer st) else Inr (l_analyzer st)) = Inr s'
        \<and> \<not> (cb \<and> Suc (processed_frames st) mod 10 = 0 \<and> tf = 0)"
proof -
  show k: "k \<noteq> 0"
    using assms by (auto split: if_splits)
  assume m: "int n mod k = 0"
  from assms k m obtain res where d: "detect_objects (l_analyzer st) frame = Inr res"
    by (cases "detect_objects (l_analyzer st) frame") auto
  from assms k m d obtain s' where
    s: "(if has_predictions res then store_results res n (l_analyzer st) else Inr (l_analyzer st)) = Inr s'"
    by (cases "if has_predictions res then store_results res n (l_analyzer st) else Inr (l_analyzer st)")
      (auto simp del: has_predictions.simps)
  have "\<not> (cb \<and> Suc (processed_frames st) mod 10 = 0 \<and> tf = 0)"
  proof
    assume "cb \<and> Suc (processed_frames st) mod 10 = 0 \<and> tf = 0"
    with assms k m d s show False
      by (simp add: Let_def)
  qed
  with d s show "\<exists>res s'. detect_objects (l_analyzer st) frame = Inr res
        \<and> (if has_predictions res then store_results res n (l_analyzer st) else Inr (l_analyzer st)) = Inr s'
        \<and> \<not> (cb \<and> Suc (processed_frames st) mod 10 = 0 \<and> tf = 0)"
    by blast
qed

lemma next_state_simps [simp]:
  "l_analyzer (next_state cb tf n s' st) = s'"
  "processed_frames (next_state cb tf n s' st) = Suc (processed_frames st)"
  "detect_calls (next_state cb tf n s' st) = detect_calls st @ [n]"
  by (simp_all add: next_state_def)

lemma stored_frame:
  assumes "(if has_predictions res then store_results res n s else Inr s) = Inr s'"
  shows "model_type s' = model_type s" and "class_names s' = class_names s" and "fps s' = fps s"
    and "map r_frame (detection_results s') =
       map r_frame (detection_results s) @ (if has_predictions res then [n] else [])"
    and "distinct (map fst (student_tracks s)) \<Longrightarrow> distinct (map fst (student_tracks s'))"
proof -
  show "model_type s' = model_type s" and "class_names s' = class_names s" and "fps s' = fps s"
    and "map r_frame (detection_results s') =
       map r_frame (detection_results s) @ (if has_predictions res then [n] else [])"
    using assms store_results_frame [of res n s s']
    by (auto split: if_splits)
  assume "distinct (map fst (student_tracks s))"
  then show "distinct (map fst (student_tracks s'))"
    using assms store_results_distinct [of res n s s']
    by (auto split: if_splits)
qed

lemma video_loop_run:
  assumes "video_loop k cb tf n frames st = Inr st'"
  shows "model_type (l_analyzer st') = model_type (l_analyzer st)
     \<and> class_names (l_analyzer st') = class_names (l_analyzer st)
     \<and> fps (l_analyzer st') = fps (l_analyzer st)
     \<and> detect_calls st' = detect_calls st @ map fst (sampled_from k n frames)
     \<and> processed_frames st' = processed_frames st + length (sampled_from k n frames)
     \<and> map r_frame (detection_results (l_analyzer st')) =
         map r_frame (detection_results (l_analyzer st)) @
         map fst (filter (\<lambda>(m, sc). yields_detections (l_analyzer st) sc) (sampled_from k n frames))
     \<and> (distinct (map fst (student_tracks (l_analyzer st))) \<longrightarrow>
          distinct (map fst (student_tracks (l_analyzer st'))))"
  using assms
proof (induction frames arbitrary: n st)
  case Nil
  then show ?case by simp
next
  case (Cons frame rest)
  note k = video_loop_Cons_Inr(1) [OF Cons.prems]
  show ?case
  proof (cases "int n mod k = 0")
    case False
    with Cons.prems k have "video_loop k cb tf (Suc n) rest st = Inr st'"
      by (simp add: video_loop_skip)
    from Cons.IH [OF this] False show ?thesis
      by (simp add: sampled_from_Cons)
  next
    case True
    from video_loop_Cons_Inr(2) [OF Cons.prems True] obtain res s' where
      d: "detect_objects (l_analyzer st) frame = Inr res"
      and s: "(if has_predictions res then store_results res n (l_analyzer st)
               else Inr (l_analyzer st)) = Inr s'"
      and p: "\<not> (cb \<and> Suc (processed_frames st) mod 10 = 0 \<and> tf = 0)"
      by blast
    let ?st = "next_state cb tf n s' st"
    have "video_loop k cb tf (Suc n) rest ?st = Inr st'"
      using video_loop_sample [OF k True d s p, of rest] Cons.prems by simp
    note ih = Cons.IH [OF this]
    note fr = stored_frame [OF s]
    have y: "yields_detections s' = yields_detections (l_analyzer st)"
      using yields_detections_cong [OF fr(1) fr(2)] by (rule ext)
    have yd: "yields_detections (l_analyzer st) frame = has_predictions res"
      using d by (simp add: yields_detections_def)
    show ?thesis
      using ih fr True yd by (simp add: y sampled_from_Cons)
  qed
qed

lemma video_loop_total:
  assumes "k \<noteq> 0" and "fps (l_analyzer st) \<noteq> 0"
    and "\<forall>sc \<in> set frames. \<exists>res. detect_objects (l_analyzer st) sc = Inr res"
    and "cb \<longrightarrow> tf \<noteq> 0"
  shows "\<exists>st'. video_loop k cb tf n frames st = Inr st'"
  using assms(2,3)
proof (induction frames arbitrary: n st)
  case Nil
  then show ?case by simp
next
  case (Cons frame rest)
  show ?case
  proof (cases "int n mod k = 0")
    case False
    have "\<exists>st'. video_loop k cb tf (Suc n) rest st = Inr st'"
      using Cons.prems by (intro Cons.IH) auto
    then show ?thesis
      using video_loop_skip [OF assms(1) False] by simp
  next
    case True
    from Cons.prems(2) obtain res where d: "detect_objects (l_analyzer st) frame = Inr res"
      by auto
    obtain s' where s: "(if has_predictions res then store_results res n (l_analyzer st)
               else Inr (l_analyzer st)) = Inr s'"
      using store_results_total [OF Cons.prems(1), of res n] by (cases "has_predictions res") auto
    have p: "\<not> (cb \<and> Suc (processed_frames st) mod 10 = 0 \<and> tf = 0)"
      using assms(4) by blast
    let ?st = "next_state cb tf n s' st"
    note fr = stored_frame [OF s]
    have f: "fps (l_analyzer ?st) \<noteq> 0"
      using fr(3) Cons.prems(1) by simp
    have "\<forall>sc \<in> set rest. \<exists>res. detect_objects (l_analyzer ?st) sc = Inr res"
      using Cons.prems(2) detect_objects_cong [OF fr(1) fr(2)] by simp
    from Cons.IH [OF f this] show ?thesis
      using video_loop_sample [OF assms(1) True d s p, of rest] by simp
  qed
qed

lemma map_fst_filter: "map fst (filter (\<lambda>(m, sc). P m) zs) = filter P (map fst zs)"
  by (induction zs) auto

lemma map_fst_sampled:
  "map fst (sampled_from k 0 frames) = filter (\<lambda>m. int m mod k = 0) [0..<length frames]"
  by (simp add: sampled_from_def enumerate_from_def map_fst_filter)

lemma multiples_gap:
  fixes k :: int
  assumes "0 < k"
  shows "\<exists>r. 0 \<le> r \<and> r < k \<and>
     int N + r = k * int (length (filter (\<lambda>m. int m mod k = 0) [0..<N]))"
proof (induction N)
  case 0
  with assms show ?case by simp
next
  case (Suc N)
  let ?c = "int (length (filter (\<lambda>m. int m mod k = 0) [0..<N]))"
  from Suc obtain r where r: "0 \<le> r" "r < k" and eq: "int N + r = k * ?c"
    by blast
  show ?case
  proof (cases "int N mod k = 0")
    case True
    then have "k dvd int N" by (simp add: dvd_eq_mod_eq_0)
    moreover have "k dvd int N + r" using eq by simp
    ultimately have "k dvd r" by (simp add: dvd_add_right_iff)
    with r assms have r0: "r = 0"
      by (metis zdvd_not_zless order_le_less)
    have "0 \<le> k - 1 \<and> k - 1 < k \<and> int (Suc N) + (k - 1) = k * (?c + 1)"
      using assms eq r0 by (simp add: algebra_simps)
    with True show ?thesis
      by (intro exI [of _ "k - 1"]) simp
  next
    case False
    have "r \<noteq> 0"
    proof
      assume "r = 0"
      with eq have "int N mod k = 0" by simp
      with False show False by simp
    qed
    with r have "0 \<le> r - 1 \<and> r - 1 < k \<and> int (Suc N) + (r - 1) = k * ?c"
      using eq by simp
    with False show ?thesis
      by (intro exI [of _ "r - 1"]) simp
  qed
qed

lemma ceiling_from_gap:
  fixes k c r n :: int
  assumes "0 < k" and "0 \<le> r" and "r < k" and "n + r = k * c"
  shows "\<lceil>(of_int n :: rat) / of_int k\<rceil> = c"
proof (rule ceiling_unique)
  have k: "(0::rat) < of_int k" using assms(1) by simp
  have "(c - 1) * k < n"
    using assms by (simp add: algebra_simps)
  then have "(of_int ((c - 1) * k) :: rat) < of_int n"
    by (simp only: of_int_less_iff)
  then have "(of_int c - 1) * (of_int k :: rat) < of_int n"
    by simp
  then show "of_int c - 1 < (of_int n :: rat) / of_int k"
    using k by (simp only: pos_less_divide_eq)
  have "n \<le> c * k"
    using assms by (simp add: algebra_simps)
  then have "(of_int n :: rat) \<le> of_int (c * k)"
    by (simp only: of_int_le_iff)
  then have "(of_int n :: rat) \<le> of_int c * of_int k"
    by simp
  then show "(of_int n :: rat) / of_int k \<le> of_int c"
    using k by (simp only: pos_divide_le_eq)
qed

lemma length_multiples:
  fixes k :: int
  assumes "0 < k"
  shows "int (length (filter (\<lambda>m. int m mod k = 0) [0..<N])) = \<lceil>(of_nat N :: rat) / of_int k\<rceil>"
proof -
  from multiples_gap [OF assms, of N] obtain r where
    r: "0 \<le> r" "r < k"
    and eq: "int N + r = k * int (length (filter (\<lambda>m. int m mod k = 0) [0..<N]))"
    by blast
  have "(of_int (int N) :: rat) = of_nat N" by simp
  with ceiling_from_gap [OF assms r eq] show ?thesis
    by (simp only:)
qed

lemma set_multiples:
  "set (filter (\<lambda>m. int m mod k = 0) [0..<N]) = {m. m < N \<and> k dvd int m}"
  by (auto simp: dvd_eq_mod_eq_0)

lemma sorted_multiples: "sorted_wrt (<) (filter (\<lambda>m. int m mod k = 0) [0..<N])"
  by (rule sorted_wrt_filter) (simp add: sorted_wrt_upt)

section \<open>Properties of processing\<close>

lemma process_video_Inr:
  assumes "process_video s v out k cb = Inr (Some (st, summary))"
  shows "cap_fps v \<noteq> 0"
    and "video_loop k cb (cap_frame_count v) 0 (cap_frames v)
           \<lparr>l_analyzer = s\<lparr>fps := cap_fps v\<rparr>, processed_frames = 0,
            detect_calls = [], progress_calls = []\<rparr> = Inr st"
    and "summary = generate_video_summary (l_analyzer st)"
  using assms by (auto simp: process_video_def split: if_splits sum.splits)

lemma yields_detections_fps [simp]:
  "yields_detections (s\<lparr>fps := f\<rparr>) = yields_detections s"
  by (rule ext) (rule yields_detections_cong, simp_all)

text \<open>
  C3, as stated, fails: in a video of two sampled frames of which the second has no detection,
  detection ran on two frames, but the summary reports one analyzed frame and the duration
  of one frame.
\<close>

theorem C3_frames_without_detections_not_counted:
  "processed_frames (fst (the (projr (process_video demo_analyzer
      (clip 25 [box_scene [1], box_scene []]) False 1 False)))) = 2
   \<and> detect_calls (fst (the (projr (process_video demo_analyzer
      (clip 25 [box_scene [1], box_scene []]) False 1 False)))) = [0, 1]
   \<and> total_frames_analyzed (the_video_summary (snd (the (projr (process_video demo_analyzer
      (clip 25 [box_scene [1], box_scene []]) False 1 False))))) = 1
   \<and> video_duration (the_video_summary (snd (the (projr (process_video demo_analyzer
      (clip 25 [box_scene [1], box_scene []]) False 1 False))))) = 1 / 25"
  by code_simp

text \<open>
  C3, amended: for every completed video run, the summary is the error indicator when no
  frame result is stored; otherwise \<open>students_tracked\<close> is the number of non-empty track
  slots, \<open>total_frames_analyzed\<close> is the number of stored frame results, that is the sampled
  frames on which detection returned at least one prediction (added to those an earlier run
  left behind), and \<open>video_duration\<close> is that number divided by the frame rate when the rate
  is positive, else 0.
\<close>

theorem C3_video_summary:
  assumes "process_video s v out sample_rate callback = Inr (Some (st, summary))"
    and "distinct (map fst (student_tracks s))"
  shows "(length (detection_results s) + frames_with_detections s sample_rate (cap_frames v) = 0
           \<longrightarrow> summary = VideoError ''No detection results available'')
     \<and> (0 < length (detection_results s) + frames_with_detections s sample_rate (cap_frames v)
           \<longrightarrow> (\<exists>vs. summary = VideoSummary vs
                \<and> total_frames_analyzed vs =
                    length (detection_results s) + frames_with_detections s sample_rate (cap_frames v)
                \<and> video_duration vs =
                    (if cap_fps v > 0
                     then of_nat (length (detection_results s)
                            + frames_with_detections s sample_rate (cap_frames v)) / cap_fps v
                     else 0)
                \<and> students_tracked vs = length (nonempty_slots (student_tracks (l_analyzer st)))))"
proof -
  let ?st0 = "\<lparr>l_analyzer = s\<lparr>fps := cap_fps v\<rparr>, processed_frames = 0,
            detect_calls = [], progress_calls = []\<rparr>"
  let ?n = "length (detection_results s) + frames_with_detections s sample_rate (cap_frames v)"
  note p = process_video_Inr [OF assms(1)]
  from video_loop_run [OF p(2)] have
    f: "fps (l_analyzer st) = cap_fps v"
    and r: "map r_frame (detection_results (l_analyzer st)) =
         map r_frame (detection_results s) @
         map fst (filter (\<lambda>(m, sc). yields_detections s sc) (sampled_from sample_rate 0 (cap_frames v)))"
    and d: "distinct (map fst (student_tracks (l_analyzer st)))"
    using assms(2) by simp_all
  have "length (map r_frame (detection_results (l_analyzer st))) = ?n"
    unfolding r by (simp add: frames_with_detections_def)
  then have len: "length (detection_results (l_analyzer st)) = ?n"
    by simp
  have none: "summary = VideoError ''No detection results available''" if "?n = 0"
    using that len p(3) by (simp add: generate_video_summary_def)
  have some: "\<exists>vs. summary = VideoSummary vs \<and> total_frames_analyzed vs = ?n
        \<and> video_duration vs = (if cap_fps v > 0 then of_nat ?n / cap_fps v else 0)
        \<and> students_tracked vs = length (nonempty_slots (student_tracks (l_analyzer st)))"
    if "0 < ?n"
  proof -
    from that len have ne: "detection_results (l_analyzer st) \<noteq> []"
      by auto
    show ?thesis
      unfolding p(3) generate_video_summary_Summary [OF ne] analysis_of_tracks [OF d]
      by (simp add: len f)
  qed
  show ?thesis
    using none some by blast
qed

text \<open>
  C4, as stated, fails for the video sources on which the run does not return: a frame rate of
  zero, frames on which detection raises, a reported frame count of zero with a progress
  callback, and a stride of zero all end the run with an exception before \<open>\<lceil>N / k\<rceil>\<close> frames
  are detected on, here \<open>\<lceil>11 / 5\<rceil> = 3\<close>; a negative stride samples the multiples of its
  absolute value, three frames of eleven where \<open>\<lceil>11 / (- 5)\<rceil> = - 2\<close>.
\<close>

theorem C4_sampling_needs_a_run_that_returns:
  "process_video demo_analyzer (clip 0 (replicate 11 (box_scene [1]))) False 5 False =
     Inl ZeroDivisionError
   \<and> process_video (init_analyzer Mock default_class_names) (clip 25 (replicate 11 small_scene))
       False 5 False = Inl ValueError
   \<and> process_video demo_analyzer
       \<lparr>cap_opened = True, cap_fps = 25, cap_frame_count = 0,
        cap_frames = replicate 50 (box_scene [1])\<rparr> False 5 True = Inl ZeroDivisionError
   \<and> process_video demo_analyzer (clip 25 (replicate 11 (box_scene [1]))) False 0 False =
       Inl ZeroDivisionError
   \<and> detect_calls (fst (the (projr (process_video demo_analyzer
         (clip 25 (replicate 11 (box_scene [1]))) False (- 5) False)))) = [0, 5, 10]
   \<and> \<lceil>(11 :: rat) / (- 5)\<rceil> = - 2
   \<and> \<lceil>(11 :: rat) / 5\<rceil> = 3"
proof -
  have a: "process_video demo_analyzer (clip 0 (replicate 11 (box_scene [1]))) False 5 False =
     Inl ZeroDivisionError"
    by code_simp
  have b: "process_video (init_analyzer Mock default_class_names) (clip 25 (replicate 11 small_scene))
       False 5 False = Inl ValueError"
    by code_simp
  have c: "process_video demo_analyzer
       \<lparr>cap_opened = True, cap_fps = 25, cap_frame_count = 0,
        cap_frames = replicate 50 (box_scene [1])\<rparr> False 5 True = Inl ZeroDivisionError"
    by code_simp
  have d: "process_video demo_analyzer (clip 25 (replicate 11 (box_scene [1]))) False 0 False =
       Inl ZeroDivisionError"
    by code_simp
  have e: "detect_calls (fst (the (projr (process_video demo_analyzer
         (clip 25 (replicate 11 (box_scene [1]))) False (- 5) False)))) = [0, 5, 10]"
    by code_simp
  have f: "\<lceil>(11 :: rat) / (- 5)\<rceil> = - 2"
    by (rule ceiling_unique) simp_all
  have g: "\<lceil>(11 :: rat) / 5\<rceil> = 3"
    by (rule ceiling_unique) simp_all
  show ?thesis using a b c d e f g by blast
qed

text \<open>
  C4, amended: for a video that opens with a non-zero frame rate and \<open>N\<close> frames, a positive
  sampling stride \<open>k\<close>, detection that returns on every frame, and a non-zero reported frame
  count when a progress callback is given, processing completes and calls detection on
  exactly the frame numbers below \<open>N\<close> that are multiples of \<open>k\<close>, in strictly increasing
  order, \<open>\<lceil>N / k\<rceil>\<close> of them.
\<close>

theorem C4_frame_sampling:
  assumes "cap_opened v" and "cap_fps v \<noteq> 0" and "0 < sample_rate"
    and "list_all (detection_returns s) (cap_frames v)"
    and "callback \<longrightarrow> cap_frame_count v \<noteq> 0"
  shows "\<exists>st summary. process_video s v out sample_rate callback = Inr (Some (st, summary))
     \<and> detect_calls st = filter (\<lambda>m. int m mod sample_rate = 0) [0..<length (cap_frames v)]
     \<and> set (detect_calls st) = {m. m < length (cap_frames v) \<and> sample_rate dvd int m}
     \<and> sorted_wrt (<) (detect_calls st)
     \<and> int (length (detect_calls st)) = \<lceil>(of_nat (length (cap_frames v)) :: rat) / of_int sample_rate\<rceil>
     \<and> processed_frames st = length (detect_calls st)"
proof -
  let ?st0 = "\<lparr>l_analyzer = s\<lparr>fps := cap_fps v\<rparr>, processed_frames = 0,
            detect_calls = [], progress_calls = []\<rparr>"
  have k: "sample_rate \<noteq> 0" using assms(3) by simp
  have "\<forall>sc \<in> set (cap_frames v). \<exists>res. detect_objects (l_analyzer ?st0) sc = Inr res"
  proof
    fix sc assume "sc \<in> set (cap_frames v)"
    with assms(4) have "detection_returns s sc"
      by (simp add: list_all_iff)
    then obtain res where "detect_objects s sc = Inr res"
      by (auto simp: detection_returns_def split: sum.splits)
    moreover have "detect_objects (s\<lparr>fps := cap_fps v\<rparr>) sc = detect_objects s sc"
      by (rule detect_objects_cong) simp_all
    ultimately show "\<exists>res. detect_objects (l_analyzer ?st0) sc = Inr res"
      by simp
  qed
  from video_loop_total [OF k _ this assms(5), of 0] obtain st where
    loop: "video_loop sample_rate callback (cap_frame_count v) 0 (cap_frames v) ?st0 = Inr st"
    using assms(2) by auto
  have run: "process_video s v out sample_rate callback =
      Inr (Some (st, generate_video_summary (l_analyzer st)))"
    using assms(1,2) k loop by (simp add: process_video_def)
  from video_loop_run [OF loop] have
    calls: "detect_calls st = filter (\<lambda>m. int m mod sample_rate = 0) [0..<length (cap_frames v)]"
    and cnt: "processed_frames st = length (sampled_from sample_rate 0 (cap_frames v))"
    by (simp_all add: map_fst_sampled)
  have "length (sampled_from sample_rate 0 (cap_frames v)) =
      length (map fst (sampled_from sample_rate 0 (cap_frames v)))"
    by simp
  also have "\<dots> = length (detect_calls st)"
    unfolding calls map_fst_sampled ..
  finally have pf: "processed_frames st = length (detect_calls st)"
    using cnt by simp
  show ?thesis
    using run calls pf set_multiples [of sample_rate "length (cap_frames v)"]
      sorted_multiples [of sample_rate "length (cap_frames v)"]
      length_multiples [OF assms(3), of "length (cap_frames v)"]
    by (intro exI [of _ st] exI [of _ "generate_video_summary (l_analyzer st)"]) simp
qed

theorem C3_video_summary_witness:
  "distinct (map fst (student_tracks demo_analyzer))
   \<and> (\<exists>st vs. process_video demo_analyzer (clip 25 [box_scene [1], box_scene []]) False 1 False =
          Inr (Some (st, VideoSummary vs))
        \<and> processed_frames st = 2
        \<and> total_frames_analyzed vs = 1 \<and> video_duration vs = 1 / 25 \<and> students_tracked vs = 1)"
proof -
  let ?v = "clip 25 [box_scene [1], box_scene []]"
  let ?r = "process_video demo_analyzer ?v False 1 False"
  let ?st = "fst (the (projr ?r))"
  let ?sm = "snd (the (projr ?r))"
  have run: "?r = Inr (Some (?st, ?sm))"
    by code_simp
  have d: "distinct (map fst (student_tracks demo_analyzer))"
    by (simp add: demo_analyzer_def init_analyzer_def)
  have n: "length (detection_results demo_analyzer)
      + frames_with_detections demo_analyzer 1 (cap_frames ?v) = 1"
    by code_simp
  have f: "cap_fps ?v = 25"
    by (simp add: clip_def)
  have t: "length (nonempty_slots (student_tracks (l_analyzer ?st))) = 1"
    by code_simp
  have p: "processed_frames ?st = 2"
    by code_simp
  from C3_video_summary [OF run d] n obtain vs where
    "?sm = VideoSummary vs" "total_frames_analyzed vs = 1"
    "video_duration vs = (if cap_fps ?v > 0 then of_nat 1 / cap_fps ?v else 0)"
    "students_tracked vs = length (nonempty_slots (student_tracks (l_analyzer ?st)))"
    by auto
  then have "?r = Inr (Some (?st, VideoSummary vs)) \<and> processed_frames ?st = 2
      \<and> total_frames_analyzed vs = 1 \<and> video_duration vs = 1 / 25 \<and> students_tracked vs = 1"
    using run f t p by simp
  with d show ?thesis by blast
qed

theorem C4_frame_sampling_witness:
  "cap_opened (clip 30 (replicate 7 (box_scene [1]))) \<and> cap_fps (clip 30 (replicate 7 (box_scene [1]))) \<noteq> 0
   \<and> (0::int) < 5
   \<and> list_all (detection_returns demo_analyzer) (cap_frames (clip 30 (replicate 7 (box_scene [1]))))
   \<and> cap_frame_count (clip 30 (replicate 7 (box_scene [1]))) \<noteq> 0
   \<and> (\<exists>st summary. process_video demo_analyzer (clip 30 (replicate 7 (box_scene [1]))) False 5 True =
          Inr (Some (st, summary))
        \<and> detect_calls st = [0, 5] \<and> processed_frames st = 2)"
proof -
  let ?v = "clip 30 (replicate 7 (box_scene [1]))"
  have h1: "cap_opened ?v" and h2: "cap_fps ?v \<noteq> 0" and h3: "(0::int) < 5"
    and h5: "cap_frame_count ?v \<noteq> 0"
    by (simp_all add: clip_def)
  have h4: "list_all (detection_returns demo_analyzer) (cap_frames ?v)"
    by code_simp
  have h5': "True \<longrightarrow> cap_frame_count ?v \<noteq> 0"
    using h5 by simp
  have ms: "filter (\<lambda>m. int m mod 5 = 0) [0..<length (cap_frames ?v)] = [0, 5]"
    by code_simp
  from C4_frame_sampling [OF h1 h2 h3 h4 h5', of False] obtain st summary where
    "process_video demo_analyzer ?v False 5 True = Inr (Some (st, summary))"
    "detect_calls st = filter (\<lambda>m. int m mod 5 = 0) [0..<length (cap_frames ?v)]"
    "processed_frames st = length (detect_calls st)"
    by blast
  then have "process_video demo_analyzer ?v False 5 True = Inr (Some (st, summary))
      \<and> detect_calls st = [0, 5] \<and> processed_frames st = 2"
    by (simp add: ms)
  with h1 h2 h3 h4 h5 show ?thesis by blast
qed

lemma box_detection_consistent: "consistent (box_detection name conf x1 y1 x2 y2)"
  by (simp add: consistent_def box_detection_def)

lemma parse_yolov8_consistent:
  "parse_yolov8_results names boxes = Some ds \<Longrightarrow> d \<in> set ds \<Longrightarrow> consistent d"
  by (cases boxes) (auto simp: box_detection_consistent)

lemma parse_yolov5_consistent:
  "parse_yolov5_results names rows = Some ds \<Longrightarrow> d \<in> set ds \<Longrightarrow> consistent d"
  by (auto simp: parse_yolov5_results_def box_detection_consistent)

lemma mock_box_center:
  "d_x (mock_box xc yc w h a c) = (d_x1 (mock_box xc yc w h a c) + d_x2 (mock_box xc yc w h a c)) / 2
   \<and> d_y (mock_box xc yc w h a c) = (d_y1 (mock_box xc yc w h a c) + d_y2 (mock_box xc yc w h a c)) / 2"
  by (simp add: mock_box_def)

lemma mock_box_size:
  "d_x2 (mock_box xc yc w h a c) - d_x1 (mock_box xc yc w h a c) = of_int (2 * (w div 2))
   \<and> d_y2 (mock_box xc yc w h a c) - d_y1 (mock_box xc yc w h a c) = of_int (2 * (h div 2))"
  by (simp add: mock_box_def)

lemma mock_box_consistent_iff:
  "consistent (mock_box xc yc w h a c) \<longleftrightarrow> even w \<and> even h"
proof -
  have "(of_int w :: rat) = of_int (2 * (w div 2)) \<longleftrightarrow> even w"
    unfolding of_int_eq_iff by presburger
  moreover have "(of_int h :: rat) = of_int (2 * (h div 2)) \<longleftrightarrow> even h"
    unfolding of_int_eq_iff by presburger
  ultimately show ?thesis
    using mock_box_center [of xc yc w h a c] mock_box_size [of xc yc w h a c]
    by (simp add: consistent_def mock_box_def)
qed

text \<open>
  C5 fails in mock mode: for a drawn width of 81 and height of 121 the corners are placed
  \<open>81 div 2 = 40\<close> and \<open>121 div 2 = 60\<close> pixels from the center, so the box has width 81 but
  its corners are 80 apart. Both parsers of real results are consistent, and so is the center
  of a mock box; its size is consistent exactly for even draws.
\<close>

theorem C5_mock_box_inconsistent:
  "valid_draw 640 480 odd_draw \<and> valid_draw 640 480 even_draw
   \<and> mock_detection (Some (480, 640)) [odd_draw, even_draw] =
       Inr (Some [\<lparr>d_class = ''reading'', d_confidence = 7 / 10, d_x = 200, d_y = 200,
                    d_width = 81, d_height = 121, d_x1 = 160, d_y1 = 140, d_x2 = 240, d_y2 = 260\<rparr>,
                  \<lparr>d_class = ''turn'', d_confidence = 4 / 5, d_x = 400, d_y = 300,
                    d_width = 100, d_height = 150, d_x1 = 350, d_y1 = 225, d_x2 = 450, d_y2 = 375\<rparr>])
   \<and> \<not> consistent \<lparr>d_class = ''reading'', d_confidence = 7 / 10, d_x = 200, d_y = 200,
                    d_width = 81, d_height = 121, d_x1 = 160, d_y1 = 140, d_x2 = 240, d_y2 = 260\<rparr>"
  by (simp add: valid_draw_def odd_draw_def even_draw_def randint_def mock_box_def consistent_def)

lemma mock_detection_Some: "mock_detection img rs = Inr res \<Longrightarrow> \<exists>ds. res = Some ds"
  by (cases img) (auto split: sum.splits)

lemma detect_objects_Some:
  assumes "detect_objects s sc = Inr res"
  shows "\<exists>ds. res = Some ds"
proof (cases "model_type s")
  case Yolov8
  show ?thesis
  proof (cases "yolov8_boxes sc")
    case Raised
    with Yolov8 assms show ?thesis
      by (auto simp: detect_objects_def dest: mock_detection_Some)
  next
    case (Returned boxes)
    with Yolov8 assms show ?thesis
      by (cases boxes) (auto simp: detect_objects_def)
  qed
next
  case Yolov5
  with assms show ?thesis
    by (cases "yolov5_rows sc")
      (auto simp: detect_objects_def parse_yolov5_results_def dest: mock_detection_Some)
next
  case Mock
  with assms show ?thesis
    by (auto simp: detect_objects_def split: sum.splits dest: mock_detection_Some)
qed

text \<open>
  C6, as stated, fails: for an image with an empty detection list \<^verbatim>\<open>process_single_image\<close>
  returns the triple of \<open>None\<close>, whose summary is neither the dictionary
  \<open>No detections found\<close> nor an empty summary, and which is also what an unreadable image
  with detections gives.
\<close>

theorem C6_empty_detections_give_no_result:
  "process_single_image demo_analyzer (box_scene []) (Some ''out.jpg'') = Inr (None, None, None)
   \<and> snd (snd (projr (process_single_image demo_analyzer (box_scene []) (Some ''out.jpg''))))
       \<noteq> Some (ImageError ''No detections found'')
   \<and> snd (snd (projr (process_single_image demo_analyzer (box_scene []) (Some ''out.jpg''))))
       \<noteq> Some (generate_image_summary (Some []))
   \<and> process_single_image demo_analyzer ((box_scene [1])\<lparr>image_size := None\<rparr>) (Some ''out.jpg'') =
       Inr (None, None, None)"
  by (simp add: process_single_image_def detect_objects_def demo_analyzer_def init_analyzer_def
      box_scene_def)

text \<open>
  C6, amended: when detection returns, \<^verbatim>\<open>process_single_image\<close> does not raise. For an empty
  detection list, as for an image that cannot be loaded, it returns the triple of \<open>None\<close> and
  builds no summary; exactly when there is a prediction and the image loads it returns the
  output path, the results and their complete summary. \<^verbatim>\<open>generate_image_summary\<close> itself
  returns the all-zero summary for an empty list and the error dictionary
  \<open>No detections found\<close> for results without predictions.
\<close>

theorem C6_process_single_image:
  assumes "detect_objects s sc = Inr res"
  shows "(res = Some [] \<longrightarrow> process_single_image s sc output_path = Inr (None, None, None))
     \<and> (\<not> has_predictions res \<or> image_size sc = None \<longrightarrow>
          process_single_image s sc output_path = Inr (None, None, None))
     \<and> (has_predictions res \<and> image_size sc \<noteq> None \<longrightarrow>
          process_single_image s sc output_path =
            Inr (output_path, Some res, Some (generate_image_summary res))
          \<and> (\<exists>sm. generate_image_summary res = ImageSummary sm \<and> 0 < total_students sm))
     \<and> generate_image_summary (Some []) =
         ImageSummary \<lparr>total_students = 0, attentive_students = 0, distracted_students = 0,
           engagement_rate = 0, activity_breakdown = []\<rparr>
     \<and> generate_image_summary None = ImageError ''No detections found''"
proof -
  have empty: "process_single_image s sc output_path = Inr (None, None, None)"
    if "\<not> has_predictions res \<or> image_size sc = None"
    using that assms by (auto simp: process_single_image_def)
  have first: "process_single_image s sc output_path = Inr (None, None, None)" if "res = Some []"
    using that empty by simp
  have full: "process_single_image s sc output_path =
        Inr (output_path, Some res, Some (generate_image_summary res))
      \<and> (\<exists>sm. generate_image_summary res = ImageSummary sm \<and> 0 < total_students sm)"
    if "has_predictions res \<and> image_size sc \<noteq> None"
  proof -
    from that obtain ds where ds: "res = Some ds" "ds \<noteq> []"
      by (cases res) auto
    have "process_single_image s sc output_path =
        Inr (output_path, Some res, Some (generate_image_summary res))"
      using that assms by (simp add: process_single_image_def)
    moreover have "\<exists>sm. generate_image_summary res = ImageSummary sm \<and> 0 < total_students sm"
      using ds by (simp add: Let_def)
    ultimately show ?thesis by blast
  qed
  have zero: "generate_image_summary (Some []) =
         ImageSummary \<lparr>total_students = 0, attentive_students = 0, distracted_students = 0,
           engagement_rate = 0, activity_breakdown = []\<rparr>"
    by (simp add: Let_def count_in_def percentage_def Counter_def)
  show ?thesis
    using first empty full zero by simp
qed

theorem C6_process_single_image_witness:
  "detect_objects demo_analyzer (box_scene []) = Inr (Some [])
   \<and> process_single_image demo_analyzer (box_scene []) (Some ''out.jpg'') = Inr (None, None, None)
   \<and> (\<exists>res sm. detect_objects demo_analyzer (box_scene [1, 1, 2]) = Inr res
        \<and> process_single_image demo_analyzer (box_scene [1, 1, 2]) (Some ''out.jpg'') =
            Inr (Some ''out.jpg'', Some res, Some (ImageSummary sm))
        \<and> total_students sm = 3)"
proof -
  have h: "detect_objects demo_analyzer (box_scene []) = Inr (Some [])"
    by (simp add: detect_objects_def demo_analyzer_def init_analyzer_def box_scene_def)
  from C6_process_single_image [OF h, of "Some ''out.jpg''"]
  have e: "process_single_image demo_analyzer (box_scene []) (Some ''out.jpg'') = Inr (None, None, None)"
    by simp
  let ?res = "projr (detect_objects demo_analyzer (box_scene [1, 1, 2]))"
  have d: "detect_objects demo_analyzer (box_scene [1, 1, 2]) = Inr ?res"
    by (simp add: detect_objects_def demo_analyzer_def init_analyzer_def box_scene_def)
  have p: "has_predictions ?res \<and> image_size (box_scene [1, 1, 2]) \<noteq> None"
    by (simp add: detect_objects_def demo_analyzer_def init_analyzer_def box_scene_def)
  have t: "total_students (the_summary (generate_image_summary ?res)) = 3"
    by (simp add: detect_objects_def demo_analyzer_def init_analyzer_def box_scene_def Let_def)
  from C6_process_single_image [OF d, of "Some ''out.jpg''"] p obtain sm where
    "process_single_image demo_analyzer (box_scene [1, 1, 2]) (Some ''out.jpg'') =
       Inr (Some ''out.jpg'', Some ?res, Some (generate_image_summary ?res))"
    "generate_image_summary ?res = ImageSummary sm"
    by blast
  with t have "process_single_image demo_analyzer (box_scene [1, 1, 2]) (Some ''out.jpg'') =
       Inr (Some ''out.jpg'', Some ?res, Some (ImageSummary sm)) \<and> total_students sm = 3"
    by simp
  with h e d show ?thesis by blast
qed

lemma process_single_image_raises:
  "detect_objects s sc = Inl e \<Longrightarrow> process_single_image s sc output_path = Inl e"
  by (simp add: process_single_image_def)

lemma mock_loop_raises:
  "rs \<noteq> [] \<Longrightarrow> width < 200 \<or> height < 200 \<Longrightarrow> mock_loop width height rs = Inl ValueError"
  by (cases rs) (auto simp: randint_def)

lemma mock_loop_returns:
  "200 \<le> width \<Longrightarrow> 200 \<le> height \<Longrightarrow>
     \<exists>ds. mock_loop width height rs = Inr ds \<and> length ds = length rs"
  by (induction rs) (auto simp: randint_def)

lemma mock_detection_raises:
  "rs \<noteq> [] \<Longrightarrow> width < 200 \<or> height < 200 \<Longrightarrow>
     mock_detection (Some (height, width)) rs = Inl ValueError"
  by (simp add: mock_loop_raises)

lemma mock_detection_returns:
  assumes "img = None \<or> (\<exists>height width. img = Some (height, width) \<and> 200 \<le> width \<and> 200 \<le> height)"
  shows "\<exists>ds. mock_detection img rs = Inr (Some ds)"
proof (cases img)
  case None
  then show ?thesis by simp
next
  case (Some size)
  with assms obtain height width where
    img: "img = Some (height, width)" and w: "200 \<le> width" and h: "200 \<le> height"
    by auto
  from mock_loop_returns [OF w h, of rs] obtain ds where "mock_loop width height rs = Inr ds"
    by blast
  with img show ?thesis by simp
qed

lemma detect_objects_fallback:
  "model_type s = Yolov8 \<Longrightarrow> yolov8_boxes sc = Raised \<Longrightarrow>
     detect_objects s sc = mock_detection (image_size sc) (draws sc)"
  "model_type s = Yolov5 \<Longrightarrow> yolov5_rows sc = Raised \<Longrightarrow>
     detect_objects s sc = mock_detection (image_size sc) (draws sc)"
  "model_type s = Mock \<Longrightarrow> mock_detection (image_size sc) (draws sc) = Inr res \<Longrightarrow>
     detect_objects s sc = Inr res"
  by (simp_all add: detect_objects_def)

lemma detect_objects_returns:
  assumes "image_size sc = None
     \<or> (\<exists>height width. image_size sc = Some (height, width) \<and> 200 \<le> width \<and> 200 \<le> height)"
  shows "\<exists>res. detect_objects s sc = Inr res"
proof -
  from mock_detection_returns [OF assms] obtain ds where
    "mock_detection (image_size sc) (draws sc) = Inr (Some ds)" by blast
  then show ?thesis
    by (auto simp: detect_objects_def split: model_type.splits attempt.splits)
qed

text \<open>
  C7 fails for frames narrower or lower than 200 pixels: \<^verbatim>\<open>random.randint(100, width - 100)\<close>
  in \<^verbatim>\<open>mock_detection\<close> raises \<^verbatim>\<open>ValueError\<close>, in the handler of \<^verbatim>\<open>detect_objects\<close> as well,
  so the exception leaves \<^verbatim>\<open>detect_objects\<close> and ends the video run at its first frame.
\<close>

theorem C7_mock_raises_on_small_frame:
  "detect_objects (init_analyzer Mock default_class_names) small_scene = Inl ValueError
   \<and> detect_objects (init_analyzer Yolov8 default_class_names) small_scene = Inl ValueError
   \<and> process_video (init_analyzer Mock default_class_names)
        (clip 25 [small_scene, small_scene, small_scene]) False 5 False = Inl ValueError"
  by (simp add: detect_objects_def init_analyzer_def small_scene_def randint_def
      process_video_def clip_def)

text \<open>
  C8, as stated, fails: after a video of 25 frames per second the reset analyzer still has
  \<open>fps = 25\<close>, where a fresh one has 30.
\<close>

theorem C8_reset_keeps_fps:
  "fps (reset_analysis (l_analyzer (fst (the (projr
      (process_video demo_analyzer (clip 25 [box_scene [1]]) False 1 False)))))) = 25
   \<and> fps (init_analyzer Yolov8 default_class_names) = 30
   \<and> reset_analysis (l_analyzer (fst (the (projr
      (process_video demo_analyzer (clip 25 [box_scene [1]]) False 1 False)))))
       \<noteq> init_analyzer Yolov8 default_class_names"
  by code_simp

text \<open>
  C8, amended: \<^verbatim>\<open>reset_analysis\<close> restores the tracks, the detection results, the frame count
  and the student summaries to their initial, empty values and keeps the frame rate of the last
  video (and the model); so the reset analyzer is the fresh one up to \<open>fps\<close>, every timeline
  read from it is empty, and its video summary is that of a fresh analyzer.
\<close>

theorem C8_reset_analysis:
  "reset_analysis s = (init_analyzer (model_type s) (class_names s))\<lparr>fps := fps s\<rparr>
   \<and> student_tracks (reset_analysis s) = [] \<and> detection_results (reset_analysis s) = []
   \<and> frame_count (reset_analysis s) = 0 \<and> student_summaries (reset_analysis s) = []
   \<and> fps (reset_analysis s) = fps s
   \<and> timeline_of (student_tracks (reset_analysis s)) k = []
   \<and> generate_video_summary (reset_analysis s) =
       generate_video_summary (init_analyzer (model_type s) (class_names s))"
  by (cases s) (simp add: reset_analysis_def init_analyzer_def generate_video_summary_def)

end
